theory Spec2Isabelle
  imports Complex_Main "HOL-Library.Word" "HOL-Library.Multiset" "HOL-Library.Sublist"
begin

unbundle bit_operations_syntax

section \<open>Seeded pseudo-random source (sitemap utilities)\<close>

text \<open>
  JavaScript strings are modelled as \<open>string\<close>; the seeds are domain names and
  fixed ASCII suffixes, so \<open>charCodeAt\<close> is \<open>of_char\<close>. The running \<open>hash\<close> of
  \<open>createSeededRandom\<close> is an int32 after every iteration (\<open>hash & hash\<close>), hence a
  \<open>32 word\<close>: \<open>hash << 5\<close> is \<open>push_bit 5\<close>, and the subtraction and addition
  (done on doubles, exactly, then truncated by \<open>&\<close>) agree with the wrapping word
  operations.
\<close>

definition hash_step :: "32 word \<Rightarrow> char \<Rightarrow> 32 word" where
  "hash_step hash c =
     (let char = (of_char c :: nat);
          hash1 = (push_bit 5 hash - hash) + of_nat char
      in hash1 AND hash1)"

definition seed_hash :: "string \<Rightarrow> 32 word" where
  "seed_hash seed = foldl hash_step 0 seed"

text \<open>\<open>Math.abs(hash) || 1\<close>: the absolute value of the signed reading, and 1 when
  that is 0. The state is a non-negative integer held in a double; it stays below
  \<open>2^32\<close>, so \<open>state * 1664525 + 1013904223\<close> stays below \<open>2^53\<close> and is exact.\<close>

definition initial_state :: "32 word \<Rightarrow> nat" where
  "initial_state hash = (let a = nat \<bar>sint hash\<bar> in if a = 0 then 1 else a)"

definition lcg_next :: "nat \<Rightarrow> nat" where
  "lcg_next state = (state * 1664525 + 1013904223) mod 4294967296"

text \<open>One call of the closure returned by \<open>createSeededRandom\<close>: the new state and
  the returned number \<open>state / 4294967296\<close>.\<close>

definition random_call :: "nat \<Rightarrow> real \<times> nat" where
  "random_call state = (let state1 = lcg_next state in (real state1 / 4294967296, state1))"

text \<open>
  The closures live in a heap of generator states: \<open>createSeededRandom\<close> allocates a
  fresh cell holding the initial state and returns its index, a call of generator
  \<open>g\<close> advances cell \<open>g\<close> only. A program is a sequence of such operations; its trace
  records which generator returned which number.
\<close>

type_synonym gen_heap = "nat list"

definition createSeededRandom :: "string \<Rightarrow> gen_heap \<Rightarrow> nat \<times> gen_heap" where
  "createSeededRandom seed h = (length h, h @ [initial_state (seed_hash seed)])"

definition call_generator :: "nat \<Rightarrow> gen_heap \<Rightarrow> (real \<times> gen_heap) option" where
  "call_generator g h =
     (if g < length h
      then (let (v, state1) = random_call (h ! g) in Some (v, h[g := state1]))
      else None)"

datatype gen_op = Create string | Call nat

datatype gen_event = Created nat string | Returned nat real

fun run_ops :: "gen_op list \<Rightarrow> gen_heap \<Rightarrow> gen_event list" where
  "run_ops [] h = []"
| "run_ops (Create seed # ops) h =
     (let (g, h1) = createSeededRandom seed h in Created g seed # run_ops ops h1)"
| "run_ops (Call g # ops) h =
     (case call_generator g h of
        None \<Rightarrow> run_ops ops h
      | Some (v, h1) \<Rightarrow> Returned g v # run_ops ops h1)"

fun values_of :: "nat \<Rightarrow> gen_event list \<Rightarrow> real list" where
  "values_of g [] = []"
| "values_of g (Created g1 seed # es) = values_of g es"
| "values_of g (Returned g1 v # es) = (if g1 = g then v # values_of g es else values_of g es)"

text \<open>The first \<open>n\<close> numbers a generator returns from a given state.\<close>

fun random_values :: "nat \<Rightarrow> nat \<Rightarrow> real list" where
  "random_values 0 state = []"
| "random_values (Suc n) state = (let (v, state1) = random_call state in v # random_values n state1)"

section \<open>Seeded Fisher-Yates shuffle\<close>

text \<open>
  The loop \<open>for (i = shuffled.length - 1; i > 0; i--)\<close> on the local copy. The index
  is \<open>Math.floor(random() * (i + 1))\<close>; the product is taken exactly, which is what
  the double multiplication gives whenever \<open>state * (i + 1) < 2^53\<close>, in particular
  for every array of fewer than \<open>2^21\<close> elements. The generator made inside
  \<open>seededShuffle\<close> never leaves the call, so its state is threaded through the loop.
\<close>

primrec fisher_yates :: "nat \<Rightarrow> nat \<Rightarrow> 'a list \<Rightarrow> 'a list" where
  "fisher_yates 0 state shuffled = shuffled"
| "fisher_yates (Suc k) state shuffled =
     (let i = Suc k;
          (v, state1) = random_call state;
          j = nat \<lfloor>v * real (i + 1)\<rfloor>
      in fisher_yates k state1 (shuffled[i := shuffled ! j, j := shuffled ! i]))"

definition seededShuffle :: "'a list \<Rightarrow> string \<Rightarrow> 'a list" where
  "seededShuffle array seed =
     (let shuffled = array;
          state = initial_state (seed_hash seed)
      in fisher_yates (length shuffled - 1) state shuffled)"

text \<open>
  The same function on a store of arrays, where the copy \<open>[...array]\<close> is a new cell
  and every swap writes into that cell: an array is the index of its cell.
\<close>

type_synonym 'a array_store = "'a list list"

primrec fisher_yates_store :: "nat \<Rightarrow> nat \<Rightarrow> nat \<Rightarrow> 'a array_store \<Rightarrow> 'a array_store" where
  "fisher_yates_store 0 state r st = st"
| "fisher_yates_store (Suc k) state r st =
     (let i = Suc k;
          (v, state1) = random_call state;
          j = nat \<lfloor>v * real (i + 1)\<rfloor>;
          shuffled = st ! r
      in fisher_yates_store k state1 r (st[r := shuffled[i := shuffled ! j, j := shuffled ! i]]))"

definition seededShuffle_store :: "'a array_store \<Rightarrow> nat \<Rightarrow> string \<Rightarrow> nat \<times> 'a array_store" where
  "seededShuffle_store st array seed =
     (let shuffled = length st;
          st1 = st @ [st ! array];
          state = initial_state (seed_hash seed)
      in (shuffled, fisher_yates_store (length (st1 ! shuffled) - 1) state shuffled st1))"

text \<open>\<open>shuffleStaticPages\<close>; the configured domain (\<open>getDomain()\<close>) is a parameter.
  \<open>pages.find\<close> gives \<open>undefined\<close> (\<open>None\<close>) when no entry is the empty string.\<close>

definition shuffleStaticPages :: "string \<Rightarrow> string list \<Rightarrow> string list" where
  "shuffleStaticPages domain pages =
     (let homepage = find (\<lambda>p. p = '''') pages;
          otherPages = filter (\<lambda>p. p \<noteq> '''') pages;
          shuffledOthers = seededShuffle otherPages (domain @ ''-pages'')
      in if homepage \<noteq> None then '''' # shuffledOthers else shuffledOthers)"

definition shuffleStates :: "string \<Rightarrow> 'a list \<Rightarrow> 'a list" where
  "shuffleStates domain states = seededShuffle states (domain @ ''-states'')"

section \<open>Page catalogue and generation options (content generator)\<close>

record page_def =
  name :: string
  outputPath :: string
  title :: string
  focus :: string
  sections :: "string list"

record SiteConfig =
  domain :: string
  siteName :: string
  keyword :: string
  ownerEmail :: "string option"
  designStyle :: "string option"

record GenerateOptions =
  homepage :: bool
  staticPages :: bool
  programPages :: bool
  cityStatePages :: bool
  forceRegenerate :: "bool option"

datatype progress_status = generating | skipped | generated | batch_complete

definition STATIC_PAGE_NAMES :: "string list" where
  "STATIC_PAGE_NAMES =
     [''faq'', ''programs'', ''providers'', ''eligibility'', ''contact'', ''apply'',
      ''states-index'', ''404'']"

definition PROGRAM_PAGE_NAMES :: "string list" where
  "PROGRAM_PAGE_NAMES =
     [''state-programs'', ''lifeline-program'', ''acp-program'', ''tribal-programs'',
      ''emergency-broadband'']"

definition PARALLEL_WORKERS :: nat where "PARALLEL_WORKERS = 3"
definition BATCH_DELAY_MS :: nat where "BATCH_DELAY_MS = 20000"
definition MAX_RETRIES :: nat where "MAX_RETRIES = 8"
definition INITIAL_RETRY_DELAY_MS :: nat where "INITIAL_RETRY_DELAY_MS = 5000"
definition MAX_RETRY_DELAY_MS :: nat where "MAX_RETRY_DELAY_MS = 60000"

definition PAGE_DEFINITIONS :: "page_def list" where
  "PAGE_DEFINITIONS =
    [
     \<lparr>name = ''state-programs'', outputPath = ''src/pages/state-programs.astro'',
       title = ''{keyword} - Get Your Free Phone Today'',
       focus = ''how to get a free phone in your state, free phone programs by state, state-specific free phone options'',
       sections = [''intro'', ''how-to-get-free-phone'', ''what-you-get'', ''who-qualifies'', ''popular-states'', ''faq'', ''cta'']\<rparr>,
     \<lparr>name = ''lifeline-program'', outputPath = ''src/pages/lifeline-program.astro'',
       title = ''{keyword} - Lifeline Free Phone Program'',
       focus = ''Lifeline free phone program, how to get a free Lifeline phone, free monthly service'',
       sections = [''intro'', ''what-is-lifeline'', ''what-you-get'', ''who-qualifies'', ''how-to-apply'', ''faq'', ''cta'']\<rparr>,
     \<lparr>name = ''acp-program'', outputPath = ''src/pages/acp-program.astro'',
       title = ''{keyword} - ACP Free Internet & Phone'',
       focus = ''ACP program, free internet, free phone with data, how to get free internet'',
       sections = [''intro'', ''what-is-acp'', ''what-you-get'', ''who-qualifies'', ''how-to-apply'', ''faq'', ''cta'']\<rparr>,
     \<lparr>name = ''faq'', outputPath = ''src/pages/faq.astro'',
       title = ''{keyword} - Common Questions Answered'',
       focus = ''free phone FAQ, how to get a free phone, eligibility questions, application help'',
       sections = [''intro'', ''eligibility-faqs'', ''application-faqs'', ''service-faqs'', ''provider-faqs'']\<rparr>,
     \<lparr>name = ''programs'', outputPath = ''src/pages/programs.astro'',
       title = ''{keyword} - All Free Phone Programs'',
       focus = ''all free phone programs, Lifeline, ACP, ways to get a free phone'',
       sections = [''intro'', ''federal-programs'', ''state-programs'', ''special-programs'', ''how-to-choose'', ''cta'']\<rparr>,
     \<lparr>name = ''providers'', outputPath = ''src/pages/providers.astro'',
       title = ''{keyword} - Top Free Phone Providers'',
       focus = ''best free phone providers, free phone companies, which provider to choose'',
       sections = [''intro'', ''top-providers'', ''how-to-choose'', ''provider-comparison'', ''faq'', ''cta'']\<rparr>,
     \<lparr>name = ''eligibility'', outputPath = ''src/pages/eligibility.astro'',
       title = ''{keyword} - Do You Qualify? Check Now'',
       focus = ''free phone eligibility, who qualifies for a free phone, income requirements, how to check'',
       sections = [''intro'', ''income-eligibility'', ''program-eligibility'', ''documents-needed'', ''check-eligibility'', ''faq'']\<rparr>,
     \<lparr>name = ''tribal-programs'', outputPath = ''src/pages/tribal-programs.astro'',
       title = ''{keyword} - Tribal Lands Free Phone'',
       focus = ''tribal free phone, enhanced Lifeline for tribal lands, free phone on reservations'',
       sections = [''intro'', ''tribal-benefits'', ''what-you-get'', ''who-qualifies'', ''how-to-apply'', ''faq'', ''cta'']\<rparr>,
     \<lparr>name = ''emergency-broadband'', outputPath = ''src/pages/emergency-broadband.astro'',
       title = ''{keyword} - Free Internet Program'',
       focus = ''free internet program, EBB to ACP transition, how to get free internet'',
       sections = [''intro'', ''what-was-ebb'', ''transition-to-acp'', ''current-options'', ''how-to-apply'', ''faq'']\<rparr>,
     \<lparr>name = ''contact'', outputPath = ''src/pages/contact.astro'',
       title = ''{keyword} - Get Help Now'',
       focus = ''contact us, get help with application, free phone support'',
       sections = [''intro'', ''contact-form'', ''other-ways-to-reach'', ''faq'']\<rparr>,
     \<lparr>name = ''apply'', outputPath = ''src/pages/apply.astro'',
       title = ''{keyword} - Apply in 2 Minutes'',
       focus = ''apply for free phone, quick application, get approved fast'',
       sections = [''intro'', ''eligibility-checker'', ''application-steps'', ''what-to-expect'', ''faq'']\<rparr>,
     \<lparr>name = ''states-index'', outputPath = ''src/pages/states/index.astro'',
       title = ''{keyword} by State'',
       focus = ''state directory, find programs by state, local assistance'',
       sections = [''intro'', ''state-grid'', ''how-state-programs-work'', ''faq'']\<rparr>,
     \<lparr>name = ''404'', outputPath = ''src/pages/404.astro'',
       title = ''Page Not Found'',
       focus = ''error page, helpful navigation, find what you need'',
       sections = [''error-message'', ''helpful-links'', ''search-suggestion'']\<rparr>
    ]"

definition filterPageDefinitions :: "GenerateOptions option \<Rightarrow> page_def list" where
  "filterPageDefinitions options =
     (case options of
        None \<Rightarrow> PAGE_DEFINITIONS
      | Some opts \<Rightarrow>
          filter (\<lambda>pageDef.
            if name pageDef \<in> set STATIC_PAGE_NAMES then staticPages opts
            else if name pageDef \<in> set PROGRAM_PAGE_NAMES then programPages opts
            else True) PAGE_DEFINITIONS)"

section \<open>Strings\<close>

text \<open>
  A JavaScript string is a sequence of UTF-16 code units; \<open>string\<close> holds the code
  units below 256. On these, \<open>toLowerCase\<close> changes the letters A to Z and the
  Latin-1 capitals (192 to 222 except the multiplication sign 215), each to the code
  unit 32 higher, and \<open>trim\<close> strips the code units 9 to 13, 32 and 160 (no-break
  space). A file is the text it decodes to; a text of code units below 256 comes
  from well-formed UTF-8 only, so the size of the file in bytes is one per code unit
  below 128 and two per code unit from 128 on.
\<close>

fun includes_str :: "string \<Rightarrow> string \<Rightarrow> bool" where
  "includes_str [] sub = (sub = [])"
| "includes_str (c # cs) sub = (prefix sub (c # cs) \<or> includes_str cs sub)"

definition upper_units :: string where
  "upper_units = ''ABCDEFGHIJKLMNOPQRSTUVWXYZ'' @
     [
      CHR 0xC0, CHR 0xC1, CHR 0xC2, CHR 0xC3, CHR 0xC4, CHR 0xC5, CHR 0xC6, CHR 0xC7,
      CHR 0xC8, CHR 0xC9, CHR 0xCA, CHR 0xCB, CHR 0xCC, CHR 0xCD, CHR 0xCE, CHR 0xCF,
      CHR 0xD0, CHR 0xD1, CHR 0xD2, CHR 0xD3, CHR 0xD4, CHR 0xD5, CHR 0xD6, CHR 0xD8,
      CHR 0xD9, CHR 0xDA, CHR 0xDB, CHR 0xDC, CHR 0xDD, CHR 0xDE
     ]"

definition lower_units :: string where
  "lower_units = ''abcdefghijklmnopqrstuvwxyz'' @
     [
      CHR 0xE0, CHR 0xE1, CHR 0xE2, CHR 0xE3, CHR 0xE4, CHR 0xE5, CHR 0xE6, CHR 0xE7,
      CHR 0xE8, CHR 0xE9, CHR 0xEA, CHR 0xEB, CHR 0xEC, CHR 0xED, CHR 0xEE, CHR 0xEF,
      CHR 0xF0, CHR 0xF1, CHR 0xF2, CHR 0xF3, CHR 0xF4, CHR 0xF5, CHR 0xF6, CHR 0xF8,
      CHR 0xF9, CHR 0xFA, CHR 0xFB, CHR 0xFC, CHR 0xFD, CHR 0xFE
     ]"

definition toLowerCase :: "string \<Rightarrow> string" where
  "toLowerCase s =
     map (\<lambda>c. case map_of (zip upper_units lower_units) c of Some l \<Rightarrow> l | None \<Rightarrow> c) s"

definition isSpace :: "char \<Rightarrow> bool" where
  "isSpace c =
     (c \<in> set [CHR 0x09, CHR 0x0A, CHR 0x0B, CHR 0x0C, CHR 0x0D, CHR 0x20, CHR 0xA0])"

definition trim :: "string \<Rightarrow> string" where
  "trim s = rev (dropWhile isSpace (rev (dropWhile isSpace s)))"

definition utf8_size :: "string \<Rightarrow> nat" where
  "utf8_size s = sum_list (map (\<lambda>c. if (of_char c :: nat) < 128 then 1 else 2) s)"

text \<open>\<open>content.split('\n')\<close>: the pieces between newlines, one more than there are
  newlines.\<close>

fun split_lines :: "string \<Rightarrow> string list" where
  "split_lines [] = [[]]"
| "split_lines (c # cs) =
     (if c = CHR 0x0A then [] # split_lines cs
      else (case split_lines cs of l # ls \<Rightarrow> (c # l) # ls | [] \<Rightarrow> [[c]]))"

definition digit_char :: "nat \<Rightarrow> char" where
  "digit_char d = ''0123456789'' ! d"

function show_nat :: "nat \<Rightarrow> string" where
  "show_nat n = (if n < 10 then [digit_char n] else show_nat (n div 10) @ [digit_char (n mod 10)])"
  by pat_completeness auto
termination
  by (relation "measure (\<lambda>n. n)") auto

declare show_nat.simps [simp del]

section \<open>The world the generator runs in\<close>

text \<open>
  An error value as the code inspects it: \<open>error.status\<close> and \<open>error.message\<close>, either
  of which may be undefined.
\<close>

record api_error =
  status :: "int option"
  message :: "string option"

definition new_Error :: "string \<Rightarrow> api_error" where
  "new_Error msg = \<lparr>status = None, message = Some msg\<rparr>"

datatype content_block = Text string | Other_block string

text \<open>What the provider does with one request: it answers after some milliseconds,
  with a message or with an error, or it never answers.\<close>

datatype reply = Message "content_block list" | Failure api_error

datatype response = Reply nat reply | NoReply

text \<open>
  The state threaded through the code: the clock (\<open>Date.now()\<close>), the two module-level
  rate-limit variables, the delays slept so far, the file tree under the site path,
  the provider (an oracle giving the response to the n-th request, which covers
  every way the service can behave), the page names of the requests sent so far,
  the invocations of the progress callback, and the three counters of a run.
\<close>

record world =
  now :: nat
  lastRateLimitHit :: nat
  consecutiveRateLimitHits :: nat
  sleeps :: "nat list"
  files :: "string \<rightharpoonup> string"
  provider :: "nat \<Rightarrow> response"
  apiCalls :: "string list"
  progress :: "(string \<times> nat \<times> nat \<times> progress_status) list"
  completedCount :: nat
  skippedCount :: nat
  generatedCount :: nat

text \<open>An asynchronous operation: \<open>None\<close> when it never settles, otherwise the error it
  rejects with (\<open>Inl\<close>) or the value it resolves to, and the world afterwards.\<close>

type_synonym 'a promise = "world \<Rightarrow> ((api_error + 'a) \<times> world) option"

definition sleep :: "nat \<Rightarrow> world \<Rightarrow> world" where
  "sleep ms w = w\<lparr>now := now w + ms, sleeps := sleeps w @ [ms]\<rparr>"

section \<open>Retry policy\<close>

definition isRateLimitError :: "api_error \<Rightarrow> bool" where
  "isRateLimitError error =
     (status error = Some 429 \<or>
      status error = Some 529 \<or>
      (case message error of None \<Rightarrow> False | Some m \<Rightarrow> includes_str m ''rate'') \<or>
      (case message error of None \<Rightarrow> False | Some m \<Rightarrow> includes_str m ''overloaded''))"

text \<open>
  The loop of \<open>withRetry\<close>, from iteration \<open>attempt\<close> on. \<open>maxRetries\<close> is a natural
  number, so the loop body runs at least once and the \<open>throw\<close> after the loop is
  never reached from \<open>attempt = 0\<close>.
\<close>

function withRetry_loop ::
  "'a promise \<Rightarrow> string \<Rightarrow> nat \<Rightarrow> nat \<Rightarrow> api_error option \<Rightarrow> 'a promise" where
  "withRetry_loop fn pageName maxRetries attempt lastError w =
     (if attempt \<le> maxRetries then
        (case fn w of
           None \<Rightarrow> None
         | Some (Inr v, w1) \<Rightarrow> Some (Inr v, w1)
         | Some (Inl error, w1) \<Rightarrow>
             if isRateLimitError error \<and> attempt < maxRetries then
               (let w2 = w1\<lparr>lastRateLimitHit := now w1\<rparr>;
                    delay = INITIAL_RETRY_DELAY_MS * 2 ^ attempt;
                    w3 = sleep delay w2
                in withRetry_loop fn pageName maxRetries (attempt + 1) (Some error) w3)
             else Some (Inl error, w1))
      else
        Some (Inl (case lastError of
                     Some e \<Rightarrow> e
                   | None \<Rightarrow> new_Error (''Failed after '' @ show_nat maxRetries @ '' retries'')), w))"
  by pat_completeness auto
termination
  by (relation "measure (\<lambda>(fn, pageName, maxRetries, attempt, lastError, w). Suc maxRetries - attempt)")
     auto

declare withRetry_loop.simps [simp del]

definition withRetry :: "'a promise \<Rightarrow> string \<Rightarrow> nat \<Rightarrow> 'a promise" where
  "withRetry fn pageName maxRetries w = withRetry_loop fn pageName maxRetries 0 None w"

text \<open>
  \<open>withTimeout\<close> races the operation against a timer: the operation wins when it
  settles in fewer than \<open>timeoutMs\<close> milliseconds, otherwise the timer rejects.
\<close>

definition withTimeout :: "'a promise \<Rightarrow> nat \<Rightarrow> string \<Rightarrow> 'a promise" where
  "withTimeout fn timeoutMs pageName w =
     (let timeout = new_Error (''Timeout after '' @ show_nat timeoutMs @ ''ms generating '' @ pageName)
      in case fn w of
           None \<Rightarrow> Some (Inl timeout, w\<lparr>now := now w + timeoutMs\<rparr>)
         | Some (r, w1) \<Rightarrow>
             if now w1 - now w < timeoutMs then Some (r, w1)
             else Some (Inl timeout, w1\<lparr>now := now w + timeoutMs\<rparr>))"

section \<open>Generating one page\<close>

text \<open>\<open>anthropic.messages.create\<close>: the request is logged under its page name and the
  provider's answer to it is awaited.\<close>

definition messages_create :: "string \<Rightarrow> (content_block list) promise" where
  "messages_create pageName w =
     (case provider w (length (apiCalls w)) of
        NoReply \<Rightarrow> None
      | Reply ms r \<Rightarrow>
          (let w1 = w\<lparr>now := now w + ms, apiCalls := apiCalls w @ [pageName]\<rparr>
           in case r of
                Failure error \<Rightarrow> Some (Inl error, w1)
              | Message blocks \<Rightarrow> Some (Inr blocks, w1)))"

text \<open>
  \<open>generatePageWithClaude\<close>. The prompt has no influence on the oracle and is left
  out; the clean-up of the returned text (stripping code fences, trimming, the
  frontmatter prefix, the import paths) is the parameter \<open>tidy\<close>, a function of the
  page and the text.
\<close>

definition generatePageWithClaude ::
  "(page_def \<Rightarrow> string \<Rightarrow> string) \<Rightarrow> page_def \<Rightarrow> SiteConfig \<Rightarrow> string promise" where
  "generatePageWithClaude tidy pageDef config w =
     (case withRetry (messages_create (name pageDef)) (name pageDef) MAX_RETRIES w of
        None \<Rightarrow> None
      | Some (Inl error, w1) \<Rightarrow> Some (Inl error, w1)
      | Some (Inr blocks, w1) \<Rightarrow>
          (case blocks of
             [] \<Rightarrow> Some (Inl (new_Error ''Cannot read properties of undefined''), w1)
           | Other_block ty # rest \<Rightarrow>
               Some (Inl (new_Error ''Unexpected response type from Claude''), w1)
           | Text astroContent # rest \<Rightarrow> Some (Inr (tidy pageDef astroContent), w1)))"

section \<open>Idempotency gate and orchestrator\<close>

definition validatePageContent :: "string \<Rightarrow> world \<Rightarrow> bool" where
  "validatePageContent filePath w =
     (case files w filePath of
        None \<Rightarrow> False
      | Some content \<Rightarrow>
          if length content < 500 then False
          else if \<not> includes_str content ''---'' then False
          else if \<not> includes_str content ''<html'' \<and> \<not> includes_str content ''<!doctype'' \<and>
                  \<not> includes_str content ''<Layout'' then False
          else
            (let lowerContent = toLowerCase content
             in if includes_str lowerContent ''error'' \<and> includes_str lowerContent ''failed'' \<and>
                   length content < 1000 then False
                else if length (filter (\<lambda>line. length (trim line) > 0) (split_lines content)) < 20
                  then False
                else True))"

text \<open>\<open>path.join(sitePath, outputPath)\<close> for paths that need no normalisation.\<close>

definition path_join :: "string \<Rightarrow> string \<Rightarrow> string" where
  "path_join sitePath p = sitePath @ ''/'' @ p"

definition mustRegenerate :: "page_def \<Rightarrow> bool" where
  "mustRegenerate pageDef =
     (let isProgramPage = (name pageDef \<in> set PROGRAM_PAGE_NAMES);
          isProvidersPage = (name pageDef = ''providers'');
          isProgramsPage = (name pageDef = ''programs'');
          isFaqPage = (name pageDef = ''faq'');
          isStatesIndexPage = (name pageDef = ''states-index'')
      in isProgramPage \<or> isProvidersPage \<or> isProgramsPage \<or> isFaqPage \<or> isStatesIndexPage)"

definition shouldForceRegenerate :: "GenerateOptions option \<Rightarrow> bool" where
  "shouldForceRegenerate generateOptions =
     (case generateOptions of None \<Rightarrow> False | Some opts \<Rightarrow> forceRegenerate opts = Some True)"

definition onProgress :: "string \<Rightarrow> nat \<Rightarrow> progress_status \<Rightarrow> world \<Rightarrow> world" where
  "onProgress pageName totalCount st w =
     w\<lparr>progress := progress w @ [(pageName, completedCount w, totalCount, st)]\<rparr>"

definition record_skipped :: "string \<Rightarrow> nat \<Rightarrow> world \<Rightarrow> world" where
  "record_skipped pageName totalCount w =
     onProgress pageName totalCount skipped
       (w\<lparr>completedCount := completedCount w + 1, skippedCount := skippedCount w + 1\<rparr>)"

definition write_generated :: "string \<Rightarrow> string \<Rightarrow> string \<Rightarrow> nat \<Rightarrow> world \<Rightarrow> world" where
  "write_generated fullPath content pageName totalCount w =
     onProgress pageName totalCount generated
       (w\<lparr>files := (files w)(fullPath \<mapsto> content),
          completedCount := completedCount w + 1,
          generatedCount := generatedCount w + 1\<rparr>)"

text \<open>The test \<open>isValid && existingStat.size > 500\<close> on the file at a path, where
  \<open>existingStat.size\<close> is the size in bytes; a missing file makes \<open>fs.stat\<close> throw,
  which the code catches.\<close>

definition existing_output_valid :: "string \<Rightarrow> world \<Rightarrow> bool" where
  "existing_output_valid fullPath w =
     (case files w fullPath of
        None \<Rightarrow> False
      | Some existing \<Rightarrow>
          (let existingStat_size = utf8_size existing;
               isValid = validatePageContent fullPath w
           in isValid \<and> existingStat_size > 500))"

datatype settled = Fulfilled | Rejected api_error

text \<open>The task of one page in a batch (the function mapped over the batch).\<close>

definition page_task ::
  "(page_def \<Rightarrow> string \<Rightarrow> string) \<Rightarrow> string \<Rightarrow> SiteConfig \<Rightarrow> GenerateOptions option \<Rightarrow> nat \<Rightarrow>
   page_def \<Rightarrow> world \<Rightarrow> (settled \<times> world) option" where
  "page_task tidy sitePath config generateOptions totalCount pageDef w =
     (let fullPath = path_join sitePath (outputPath pageDef);
          must = mustRegenerate pageDef;
          force = shouldForceRegenerate generateOptions
      in if \<not> must \<and> \<not> force \<and> existing_output_valid fullPath w
         then Some (Fulfilled, record_skipped (name pageDef) totalCount w)
         else
           (let w1 = (if \<not> must \<and> \<not> force then w
                      else w\<lparr>files := (files w)(fullPath := None)\<rparr>)
            in case generatePageWithClaude tidy pageDef config w1 of
                 None \<Rightarrow> None
               | Some (Inl error, w2) \<Rightarrow>
                   Some (Rejected (new_Error (''Failed to generate '' @ name pageDef @ '': '' @
                           (case message error of None \<Rightarrow> ''undefined'' | Some m \<Rightarrow> m))), w2)
               | Some (Inr content, w2) \<Rightarrow>
                   Some (Fulfilled, write_generated fullPath content (name pageDef) totalCount w2)))"

text \<open>
  The tasks of a batch run concurrently and are awaited together
  (\<open>Promise.allSettled\<close>); each works on its own file, and the model runs them one
  after the other in catalogue order.
\<close>

fun run_tasks ::
  "(page_def \<Rightarrow> string \<Rightarrow> string) \<Rightarrow> string \<Rightarrow> SiteConfig \<Rightarrow> GenerateOptions option \<Rightarrow> nat \<Rightarrow>
   page_def list \<Rightarrow> world \<Rightarrow> (settled list \<times> world) option" where
  "run_tasks tidy sitePath config generateOptions totalCount [] w = Some ([], w)"
| "run_tasks tidy sitePath config generateOptions totalCount (pageDef # rest) w =
     (case page_task tidy sitePath config generateOptions totalCount pageDef w of
        None \<Rightarrow> None
      | Some (r, w1) \<Rightarrow>
          (case run_tasks tidy sitePath config generateOptions totalCount rest w1 of
             None \<Rightarrow> None
           | Some (rs, w2) \<Rightarrow> Some (r # rs, w2)))"

text \<open>The second attempt for a page whose task was rejected.\<close>

definition retry_failed ::
  "(page_def \<Rightarrow> string \<Rightarrow> string) \<Rightarrow> string \<Rightarrow> SiteConfig \<Rightarrow> nat \<Rightarrow> page_def \<Rightarrow> world \<Rightarrow>
   world option" where
  "retry_failed tidy sitePath config totalCount failedPage w =
     (let fullPath = path_join sitePath (outputPath failedPage)
      in if existing_output_valid fullPath w
         then Some (record_skipped (name failedPage) totalCount w)
         else
           (case generatePageWithClaude tidy failedPage config w of
              None \<Rightarrow> None
            | Some (Inl retryError, w1) \<Rightarrow> Some w1
            | Some (Inr content, w1) \<Rightarrow>
                Some (write_generated fullPath content (name failedPage) totalCount w1)))"

fun retry_pass ::
  "(page_def \<Rightarrow> string \<Rightarrow> string) \<Rightarrow> string \<Rightarrow> SiteConfig \<Rightarrow> nat \<Rightarrow>
   (page_def \<times> settled) list \<Rightarrow> world \<Rightarrow> world option" where
  "retry_pass tidy sitePath config totalCount [] w = Some w"
| "retry_pass tidy sitePath config totalCount ((failedPage, result) # rest) w =
     (case result of
        Fulfilled \<Rightarrow> retry_pass tidy sitePath config totalCount rest w
      | Rejected reason \<Rightarrow>
          (case retry_failed tidy sitePath config totalCount failedPage w of
             None \<Rightarrow> None
           | Some w1 \<Rightarrow> retry_pass tidy sitePath config totalCount rest w1))"

definition adaptive_delay_before :: "world \<Rightarrow> nat" where
  "adaptive_delay_before w =
     (let timeSinceLastRateLimit = now w - lastRateLimitHit w
      in if consecutiveRateLimitHits w > 2 then BATCH_DELAY_MS * 2
         else if timeSinceLastRateLimit < 60000 then BATCH_DELAY_MS * 3 div 2
         else BATCH_DELAY_MS)"

definition delay_after :: "world \<Rightarrow> nat" where
  "delay_after w =
     (let timeSinceRateLimit = now w - lastRateLimitHit w
      in if timeSinceRateLimit < 60000 then BATCH_DELAY_MS else 10000)"

text \<open>One iteration of the loop over the batches.\<close>

definition run_batch ::
  "(page_def \<Rightarrow> string \<Rightarrow> string) \<Rightarrow> string \<Rightarrow> SiteConfig \<Rightarrow> GenerateOptions option \<Rightarrow> nat \<Rightarrow>
   nat \<Rightarrow> nat \<Rightarrow> page_def list \<Rightarrow> world \<Rightarrow> world option" where
  "run_batch tidy sitePath config generateOptions totalCount nBatches batchIndex batch w =
     (let w1 = (if batchIndex > 0 then sleep (adaptive_delay_before w) w else w)
      in case run_tasks tidy sitePath config generateOptions totalCount batch w1 of
           None \<Rightarrow> None
         | Some (batchResults, w2) \<Rightarrow>
             (let w3 = (if nBatches > 1
                        then onProgress (''batch-'' @ show_nat (batchIndex + 1)) totalCount batch_complete w2
                        else w2)
              in case retry_pass tidy sitePath config totalCount (zip batch batchResults) w3 of
                   None \<Rightarrow> None
                 | Some w4 \<Rightarrow>
                     Some (if batchIndex < nBatches - 1 then sleep (delay_after w4) w4 else w4)))"

fun run_batches ::
  "(page_def \<Rightarrow> string \<Rightarrow> string) \<Rightarrow> string \<Rightarrow> SiteConfig \<Rightarrow> GenerateOptions option \<Rightarrow> nat \<Rightarrow>
   nat \<Rightarrow> nat \<Rightarrow> page_def list list \<Rightarrow> world \<Rightarrow> world option" where
  "run_batches tidy sitePath config generateOptions totalCount nBatches batchIndex [] w = Some w"
| "run_batches tidy sitePath config generateOptions totalCount nBatches batchIndex (batch # rest) w =
     (case run_batch tidy sitePath config generateOptions totalCount nBatches batchIndex batch w of
        None \<Rightarrow> None
      | Some w1 \<Rightarrow>
          run_batches tidy sitePath config generateOptions totalCount nBatches (batchIndex + 1) rest w1)"

text \<open>\<open>for (i = 0; i < pagesToGenerate.length; i += PARALLEL_WORKERS)
  batches.push(pagesToGenerate.slice(i, i + PARALLEL_WORKERS))\<close>\<close>

function split_batches :: "page_def list \<Rightarrow> page_def list list" where
  "split_batches pages =
     (if pages = [] then []
      else take PARALLEL_WORKERS pages # split_batches (drop PARALLEL_WORKERS pages))"
  by pat_completeness auto
termination
  by (relation "measure length") (auto simp: PARALLEL_WORKERS_def)

declare split_batches.simps [simp del]

text \<open>\<open>generateAllPageContent\<close>; the counters and the callback's log start empty with
  the run.\<close>

definition generateAllPageContent ::
  "(page_def \<Rightarrow> string \<Rightarrow> string) \<Rightarrow> string \<Rightarrow> SiteConfig \<Rightarrow> GenerateOptions option \<Rightarrow>
   world \<Rightarrow> world option" where
  "generateAllPageContent tidy sitePath config generateOptions w =
     (let pagesToGenerate = filterPageDefinitions generateOptions;
          totalCount = length pagesToGenerate;
          w0 = w\<lparr>progress := [], completedCount := 0, skippedCount := 0, generatedCount := 0\<rparr>
      in if totalCount = 0 then Some w0
         else
           (let batches = split_batches pagesToGenerate
            in run_batches tidy sitePath config generateOptions totalCount (length batches) 0 batches w0))"

section \<open>The hash as the specification words it\<close>

text \<open>The specification describes the fold as \<open>hash = hash*31 - hash + charCode\<close>,
  wrapped to 32 bits. This is that formula, to be compared with \<open>hash_step\<close>.\<close>

definition spec_hash_step :: "32 word \<Rightarrow> char \<Rightarrow> 32 word" where
  "spec_hash_step hash c = hash * 31 - hash + of_nat (of_char c)"

definition spec_seed_hash :: "string \<Rightarrow> 32 word" where
  "spec_seed_hash seed = foldl spec_hash_step 0 seed"

section \<open>Sample inputs\<close>

text \<open>A process that has just started (no rate limit met, nothing generated yet), with
  a given provider behaviour; and three provider behaviours.\<close>

definition fresh_world :: "(nat \<Rightarrow> response) \<Rightarrow> world" where
  "fresh_world answers =
     \<lparr>now = 1700000000000, lastRateLimitHit = 0, consecutiveRateLimitHits = 0, sleeps = [],
      files = Map.empty, provider = answers, apiCalls = [], progress = [],
      completedCount = 0, skippedCount = 0, generatedCount = 0\<rparr>"

definition rate_limit_error :: api_error where
  "rate_limit_error = \<lparr>status = Some 429, message = Some ''Too Many Requests''\<rparr>"

definition always_throttled :: "nat \<Rightarrow> response" where
  "always_throttled n = Reply 200 (Failure rate_limit_error)"

definition throttled_once :: "nat \<Rightarrow> response" where
  "throttled_once n =
     (if n = 0 then Reply 200 (Failure rate_limit_error) else Reply 200 (Message [Text ''---'']))"

definition never_answers :: "nat \<Rightarrow> response" where
  "never_answers n = NoReply"

definition example_config :: SiteConfig where
  "example_config =
     \<lparr>domain = ''sunrise-phones.example'', siteName = ''Sunrise Phones'',
      keyword = ''Free Government Phone'', ownerEmail = None, designStyle = None\<rparr>"

definition keep_text :: "page_def \<Rightarrow> string \<Rightarrow> string" where
  "keep_text pageDef astroContent = astroContent"

text \<open>A generated page that passes the checks of \<open>validatePageContent\<close>, a provider
  that always answers with it, and two runs in succession with that provider, starting
  from an empty site.\<close>

definition sample_page :: string where
  "sample_page = ''---'' @ [CHR 0x0A] @ ''<Layout>'' @ [CHR 0x0A] @
     concat (replicate 20 (''<p>free government phone</p>'' @ [CHR 0x0A]))"

definition always_answers :: "nat \<Rightarrow> response" where
  "always_answers n = Reply 3000 (Message [Text sample_page])"



text \<open>A page outside the always-regenerate category, a site that already holds its
  output, and options that force regeneration.\<close>

definition eligibility_page :: page_def where
  "eligibility_page = PAGE_DEFINITIONS ! 6"

definition site_with_eligibility :: world where
  "site_with_eligibility =
     (fresh_world always_answers)\<lparr>files := [''site/src/pages/eligibility.astro'' \<mapsto> sample_page]\<rparr>"

definition forced_options :: GenerateOptions where
  "forced_options =
     \<lparr>homepage = True, staticPages = True, programPages = True, cityStatePages = True,
      forceRegenerate = Some True\<rparr>"


section \<open>Observing a run\<close>

text \<open>The requests sent between two worlds, and two relations between an earlier and
  a later world: requests and callback invocations were only added; and moreover the
  file at a path was left alone and no request was sent for a page name.\<close>

definition calls_since :: "world \<Rightarrow> world \<Rightarrow> string list" where
  "calls_since w w1 = drop (length (apiCalls w)) (apiCalls w1)"



text \<open>
  What a page task did. It skipped generation: it is fulfilled, no request was sent,
  no file was touched, the callback got one \<open>skipped\<close> report and the counters of
  completed and skipped pages went up by one.
\<close>

definition gate_skipped :: "page_def \<Rightarrow> nat \<Rightarrow> world \<Rightarrow> (settled \<times> world) option \<Rightarrow> bool" where
  "gate_skipped pageDef totalCount w res =
     (case res of
        None \<Rightarrow> False
      | Some (r, w1) \<Rightarrow>
          r = Fulfilled \<and> apiCalls w1 = apiCalls w \<and> files w1 = files w \<and>
          progress w1 = progress w @ [(name pageDef, completedCount w + 1, totalCount, skipped)] \<and>
          completedCount w1 = completedCount w + 1 \<and>
          skippedCount w1 = skippedCount w + 1 \<and>
          generatedCount w1 = generatedCount w)"

text \<open>
  Or it went on to generate the page. Then between one and \<open>MAX_RETRIES + 1\<close> requests
  were sent to the provider, all of them for this page.
\<close>

definition requests_page :: "page_def \<Rightarrow> world \<Rightarrow> world \<Rightarrow> bool" where
  "requests_page pageDef w w1 =
     (provider w1 = provider w \<and>
      prefix (apiCalls w) (apiCalls w1) \<and>
      calls_since w w1 \<noteq> [] \<and>
      length (calls_since w w1) \<le> MAX_RETRIES + 1 \<and>
      set (calls_since w w1) \<subseteq> {name pageDef})"

text \<open>
  The page was regenerated: the task is fulfilled, the provider's answer to the last
  request is a message that starts with a text block, the file at the target path now
  holds that text, cleaned up, whatever was there before, the callback got one
  \<open>generated\<close> report, and the page was counted as completed and generated.
\<close>

definition regenerated ::
  "(page_def \<Rightarrow> string \<Rightarrow> string) \<Rightarrow> page_def \<Rightarrow> string \<Rightarrow> nat \<Rightarrow> world \<Rightarrow>
   (settled \<times> world) option \<Rightarrow> bool" where
  "regenerated tidy pageDef fullPath totalCount w res =
     (case res of
        None \<Rightarrow> False
      | Some (r, w1) \<Rightarrow>
          r = Fulfilled \<and> requests_page pageDef w w1 \<and>
          (case provider w (length (apiCalls w1) - 1) of
             Reply ms (Message (Text astroContent # rest)) \<Rightarrow>
               files w1 = (files w)(fullPath \<mapsto> tidy pageDef astroContent) \<and>
               progress w1 =
                 progress w @ [(name pageDef, completedCount w + 1, totalCount, generated)] \<and>
               completedCount w1 = completedCount w + 1 \<and>
               skippedCount w1 = skippedCount w \<and>
               generatedCount w1 = generatedCount w + 1
           | _ \<Rightarrow> False))"

text \<open>
  The generation failed: the task is rejected, the provider's answer to the last
  request is an error or a message that does not start with a text block, nothing was
  written or reported and no counter moved. Where the code deletes the old output
  before it asks (\<open>deleted\<close>), the file is gone.
\<close>

definition generation_failed ::
  "page_def \<Rightarrow> string \<Rightarrow> bool \<Rightarrow> world \<Rightarrow> (settled \<times> world) option \<Rightarrow> bool" where
  "generation_failed pageDef fullPath deleted w res =
     (case res of
        None \<Rightarrow> False
      | Some (r, w1) \<Rightarrow>
          (case r of Rejected reason \<Rightarrow> True | Fulfilled \<Rightarrow> False) \<and>
          requests_page pageDef w w1 \<and>
          (case provider w (length (apiCalls w1) - 1) of
             NoReply \<Rightarrow> False
           | Reply ms (Message (Text astroContent # rest)) \<Rightarrow> False
           | _ \<Rightarrow> True) \<and>
          files w1 = (if deleted then (files w)(fullPath := None) else files w) \<and>
          progress w1 = progress w \<and>
          completedCount w1 = completedCount w \<and>
          skippedCount w1 = skippedCount w \<and>
          generatedCount w1 = generatedCount w)"

text \<open>
  A task that takes the generation path ends in one of these two ways, or it does not
  settle, and then the provider left one of the next \<open>MAX_RETRIES + 1\<close> requests
  unanswered.
\<close>

definition generation_attempted ::
  "(page_def \<Rightarrow> string \<Rightarrow> string) \<Rightarrow> page_def \<Rightarrow> string \<Rightarrow> nat \<Rightarrow> bool \<Rightarrow> world \<Rightarrow>
   (settled \<times> world) option \<Rightarrow> bool" where
  "generation_attempted tidy pageDef fullPath totalCount deleted w res =
     (case res of
        None \<Rightarrow>
          list_ex (\<lambda>k. provider w (length (apiCalls w) + k) = NoReply) [0..<MAX_RETRIES + 1]
      | Some x \<Rightarrow>
          regenerated tidy pageDef fullPath totalCount w res \<or>
          generation_failed pageDef fullPath deleted w res)"

text \<open>
  The requests of one \<open>withRetry\<close> around a provider call are the next requests in the
  provider's numbering. Request number \<open>k\<close> of the loop is either the unanswered one,
  and then the loop does not settle, or the last one, and then the loop settles with
  what the provider answered to it; nothing but the clock, the delays, the request
  log and \<open>lastRateLimitHit\<close> changes.
\<close>

definition retry_result :: "nat \<Rightarrow> nat \<Rightarrow> string \<Rightarrow> world \<Rightarrow>
    ((api_error + content_block list) \<times> world) option \<Rightarrow> bool" where
  "retry_result a m pn w res =
     (case res of
        None \<Rightarrow> (\<exists>k. a + k \<le> m \<and> provider w (length (apiCalls w) + k) = NoReply)
      | Some (r, w1) \<Rightarrow>
          (\<exists>k ms. a + k \<le> m \<and> apiCalls w1 = apiCalls w @ replicate (Suc k) pn \<and>
             provider w1 = provider w \<and> files w1 = files w \<and> progress w1 = progress w \<and>
             completedCount w1 = completedCount w \<and> skippedCount w1 = skippedCount w \<and>
             generatedCount w1 = generatedCount w \<and>
             provider w (length (apiCalls w) + k) =
               Reply ms (case r of Inl e \<Rightarrow> Failure e | Inr v \<Rightarrow> Message v)))"

section \<open>Properties of the pseudo-random source\<close>

lemma hash_step_mult32: "hash_step h c = h * 32 - h + of_nat (of_char c)"
  by (simp add: hash_step_def Let_def push_bit_eq_mult)

lemma hash_step_mult31: "hash_step h c = h * 31 + of_nat (of_char c)"
  by (simp add: hash_step_mult32)

lemma hash_step_signed:
  "sint (hash_step h c) = signed_take_bit 31 (sint h * 31 + int (of_char c))"
proof -
  have "hash_step h c = word_of_int (sint h * 31 + int (of_char c))"
    by (simp add: hash_step_mult31)
  then show ?thesis
    by (simp only: sint_sbintrunc') simp
qed

lemma lcg_next_less: "lcg_next s < 4294967296"
  by (simp add: lcg_next_def)

lemma random_call_range: "0 \<le> fst (random_call s) \<and> fst (random_call s) < 1"
  using lcg_next_less [of s] by (simp add: random_call_def Let_def)

lemma random_values_take: "m \<le> n \<Longrightarrow> take m (random_values n s) = random_values m s"
proof (induction m arbitrary: n s)
  case 0
  then show ?case by simp
next
  case (Suc m)
  then obtain n' where "n = Suc n'" by (cases n) auto
  with Suc show ?case by (simp add: Let_def split: prod.splits)
qed

text \<open>An index handed out by \<open>createSeededRandom\<close> is new.\<close>

lemma created_fresh:
  "Created g seed \<in> set (run_ops ops h) \<Longrightarrow> length h \<le> g"
proof (induction ops h rule: run_ops.induct)
  case (1 h)
  then show ?case by simp
next
  case (2 seed' ops h)
  then show ?case by (fastforce simp: createSeededRandom_def)
next
  case (3 g' ops h)
  then show ?case
    by (fastforce simp: call_generator_def Let_def split: option.splits if_splits prod.splits)
qed

text \<open>Whatever else the program does, the numbers an existing generator returns are
  the LCG sequence from the state it holds.\<close>

lemma values_of_allocated:
  "g < length h \<Longrightarrow>
   values_of g (run_ops ops h) = random_values (length (values_of g (run_ops ops h))) (h ! g)"
proof (induction ops h rule: run_ops.induct)
  case (1 h)
  then show ?case by simp
next
  case (2 seed' ops h)
  then show ?case by (simp add: createSeededRandom_def nth_append)
next
  case (3 g' ops h)
  show ?case
  proof (cases "g' < length h")
    case False
    with 3 show ?thesis by (simp add: call_generator_def)
  next
    case True
    obtain v s1 where rc: "random_call (h ! g') = (v, s1)" by (cases "random_call (h ! g')")
    have cg: "call_generator g' h = Some (v, h[g' := s1])"
      using True rc by (simp add: call_generator_def)
    have ih: "values_of g (run_ops ops (h[g' := s1])) =
        random_values (length (values_of g (run_ops ops (h[g' := s1])))) (h[g' := s1] ! g)"
      using 3(2)[OF cg refl] 3(3) by simp
    show ?thesis
    proof (cases "g' = g")
      case True
      with ih cg rc 3(3) show ?thesis by simp
    next
      case False
      with ih cg rc 3(3) show ?thesis by simp
    qed
  qed
qed

lemma values_of_created:
  "Created g seed \<in> set (run_ops ops h) \<Longrightarrow>
   values_of g (run_ops ops h) =
     random_values (length (values_of g (run_ops ops h))) (initial_state (seed_hash seed))"
proof (induction ops h rule: run_ops.induct)
  case (1 h)
  then show ?case by simp
next
  case (2 seed' ops h)
  let ?h1 = "h @ [initial_state (seed_hash seed')]"
  from 2(2) have "(g = length h \<and> seed = seed') \<or> Created g seed \<in> set (run_ops ops ?h1)"
    by (auto simp: createSeededRandom_def)
  then show ?case
  proof
    assume a: "g = length h \<and> seed = seed'"
    then have "g < length ?h1" by simp
    from values_of_allocated [OF this, of ops] a show ?thesis
      by (simp add: createSeededRandom_def)
  next
    assume "Created g seed \<in> set (run_ops ops ?h1)"
    with 2(1)[OF refl, of "length h" ?h1] show ?thesis by (simp add: createSeededRandom_def)
  qed
next
  case (3 g' ops h)
  show ?case
  proof (cases "call_generator g' h")
    case None
    with 3 show ?thesis by simp
  next
    case (Some p)
    obtain v h1 where p: "p = (v, h1)" by (cases p)
    from Some p have len: "length h1 = length h" and lt: "g' < length h"
      by (auto simp: call_generator_def split: if_splits prod.splits)
    from 3(3) Some p have mem: "Created g seed \<in> set (run_ops ops h1)" by simp
    from created_fresh [OF mem] len lt have "g' \<noteq> g" by simp
    with 3(2)[OF Some p [symmetric] mem] Some p show ?thesis by simp
  qed
qed

lemma same_seed_same_values:
  assumes "Created g1 seed \<in> set (run_ops ops h)" and "Created g2 seed \<in> set (run_ops ops h)"
  shows "take (min (length (values_of g1 (run_ops ops h))) (length (values_of g2 (run_ops ops h))))
           (values_of g1 (run_ops ops h)) =
         take (min (length (values_of g1 (run_ops ops h))) (length (values_of g2 (run_ops ops h))))
           (values_of g2 (run_ops ops h))"
proof -
  let ?v1 = "values_of g1 (run_ops ops h)" and ?v2 = "values_of g2 (run_ops ops h)"
  let ?s = "initial_state (seed_hash seed)"
  let ?n = "min (length ?v1) (length ?v2)"
  have "take ?n ?v1 = take ?n (random_values (length ?v1) ?s)"
    using values_of_created [OF assms(1)] by simp
  also have "\<dots> = random_values ?n ?s" by (rule random_values_take) simp
  also have "\<dots> = take ?n (random_values (length ?v2) ?s)"
    by (rule random_values_take [symmetric]) simp
  also have "\<dots> = take ?n ?v2"
    using values_of_created [OF assms(2)] by simp
  finally show ?thesis .
qed

section \<open>Properties of the shuffle\<close>

lemma floor_index_le:
  assumes "0 \<le> v" "v < 1"
  shows "nat \<lfloor>v * real (i + 1)\<rfloor> \<le> i"
proof -
  have "v * real (i + 1) < real (i + 1)"
    using assms by (simp add: mult_less_cancel_right1)
  then have "\<lfloor>v * real (i + 1)\<rfloor> < int (i + 1)"
    by (simp add: floor_less_iff)
  then show ?thesis by linarith
qed

lemma random_index_le:
  "random_call s = (v, s1) \<Longrightarrow> nat \<lfloor>v * real (i + 1)\<rfloor> \<le> i"
  using random_call_range [of s] by (intro floor_index_le) auto

lemma fisher_yates_mset:
  "k < length xs \<Longrightarrow> mset (fisher_yates k s xs) = mset xs"
proof (induction k arbitrary: s xs)
  case 0
  show ?case by simp
next
  case (Suc k)
  obtain v s1 where rc: "random_call s = (v, s1)" by (cases "random_call s")
  let ?j = "nat \<lfloor>v * real (Suc k + 1)\<rfloor>"
  let ?ys = "xs[Suc k := xs ! ?j, ?j := xs ! Suc k]"
  have j: "?j < length xs" using random_index_le [OF rc, of "Suc k"] Suc.prems by simp
  have "mset (fisher_yates k s1 ?ys) = mset ?ys"
    using Suc.prems by (intro Suc.IH) simp
  also have "\<dots> = mset xs" using Suc.prems j by (simp add: mset_swap)
  finally show ?case using rc by (simp add: Let_def)
qed

lemma fisher_yates_length: "length (fisher_yates k s xs) = length xs"
  by (induction k arbitrary: s xs) (simp_all add: Let_def split: prod.splits)

lemma seededShuffle_mset: "mset (seededShuffle xs seed) = mset xs"
proof (cases xs)
  case Nil
  then show ?thesis by (simp add: seededShuffle_def)
next
  case (Cons a list)
  then show ?thesis by (simp add: seededShuffle_def fisher_yates_mset)
qed

lemma seededShuffle_length: "length (seededShuffle xs seed) = length xs"
  by (simp add: seededShuffle_def fisher_yates_length)

text \<open>The swaps in the store touch the new cell only.\<close>

lemma fisher_yates_store_eq:
  "r < length st \<Longrightarrow> fisher_yates_store k s r st = st[r := fisher_yates k s (st ! r)]"
proof (induction k arbitrary: s st)
  case 0
  then show ?case by simp
next
  case (Suc k)
  then show ?case by (simp add: Let_def split: prod.splits)
qed

lemma seededShuffle_store_eq:
  "seededShuffle_store st a seed = (length st, st @ [seededShuffle (st ! a) seed])"
  by (simp add: seededShuffle_store_def seededShuffle_def Let_def fisher_yates_store_eq)

lemma count_filter_neq: "length (filter (\<lambda>p. p \<noteq> x) xs) + count_list xs x = length xs"
  by (induction xs) auto

text \<open>The swap index as an integer division, for evaluating the loop on numerals.\<close>

lemma swap_index_div:
  "nat \<lfloor>real s / 4294967296 * real n\<rfloor> = (s * n) div 4294967296"
proof -
  have "real s / 4294967296 * real n = real (s * n) / real 4294967296" by simp
  then have "\<lfloor>real s / 4294967296 * real n\<rfloor> = \<lfloor>real (s * n) / real 4294967296\<rfloor>" by simp
  also have "\<dots> = int ((s * n) div 4294967296)"
    by (simp only: floor_divide_of_nat_eq)
  finally show ?thesis by simp
qed

lemma fisher_yates_step:
  "0 < i \<Longrightarrow> fisher_yates i state xs =
     (let s1 = lcg_next state; j = (s1 * (i + 1)) div 4294967296
      in fisher_yates (i - 1) s1 (xs[i := xs ! j, j := xs ! i]))"
proof (cases i)
  case 0
  then show "0 < i \<Longrightarrow> ?thesis" by simp
next
  case (Suc k)
  then show ?thesis
    using swap_index_div [of "lcg_next state" "Suc (Suc k)"]
    by (simp add: random_call_def Let_def)
qed

lemma initial_state_a_com: "initial_state (seed_hash ''a.com'') = 91050612"
  by (simp add: seed_hash_def hash_step_def initial_state_def)

lemma seededShuffle_example: "seededShuffle [10, 20, 30 :: nat] ''a.com'' = [30, 20, 10]"
proof -
  have a: "fisher_yates 2 91050612 [10, 20, 30 :: nat] = fisher_yates 1 522869571 [30, 20, 10]"
    by (subst fisher_yates_step) (simp_all add: lcg_next_def Let_def del: fisher_yates.simps(2))
  have b: "fisher_yates 1 522869571 [30, 20, 10 :: nat] = fisher_yates 0 2608678854 [30, 20, 10]"
    by (subst fisher_yates_step) (simp_all add: lcg_next_def Let_def del: fisher_yates.simps(2))
  have len: "length [10, 20, 30 :: nat] - 1 = 2" by simp
  show ?thesis
    unfolding seededShuffle_def Let_def initial_state_a_com len a b by simp
qed

section \<open>Claims about the seeded source and the shuffle\<close>

text \<open>
  Claim C7, as the code has it. The fold over the seed is
  \<open>hash = hash*32 - hash + charCode\<close> (that is \<open>hash*31 + charCode\<close>) wrapped to a signed
  32-bit integer, not \<open>hash*31 - hash + charCode\<close>; the rest is as stated: the initial
  state of the generator is \<open>abs(hash)\<close>, or 1 when that is 0; a call replaces the state
  by \<open>(state * 1664525 + 1013904223) mod 2^32\<close> and returns the new state divided by
  \<open>2^32\<close>, a number in \<open>[0, 1)\<close>.
\<close>

theorem createSeededRandom_algorithm:
  "seed_hash seed = foldl (\<lambda>hash c. hash * 32 - hash + of_nat (of_char c)) 0 seed
   \<and> (\<forall>hash c. sint (hash_step hash c) = signed_take_bit 31 (sint hash * 31 + int (of_char c)))
   \<and> createSeededRandom seed h =
       (length h, h @ [if \<bar>sint (seed_hash seed)\<bar> = 0 then 1 else nat \<bar>sint (seed_hash seed)\<bar>])
   \<and> call_generator (length h) (h @ [state]) =
       Some (real (lcg_next state) / 2 ^ 32, h @ [lcg_next state])
   \<and> lcg_next state = (state * 1664525 + 1013904223) mod 2 ^ 32
   \<and> 0 \<le> fst (random_call state) \<and> fst (random_call state) < 1"
proof -
  have "hash_step = (\<lambda>hash c. hash * 32 - hash + of_nat (of_char c))"
    by (intro ext) (rule hash_step_mult32)
  then have fold: "seed_hash seed = foldl (\<lambda>hash c. hash * 32 - hash + of_nat (of_char c)) 0 seed"
    by (simp add: seed_hash_def)
  have init: "createSeededRandom seed h =
       (length h, h @ [if \<bar>sint (seed_hash seed)\<bar> = 0 then 1 else nat \<bar>sint (seed_hash seed)\<bar>])"
    by (simp add: createSeededRandom_def initial_state_def Let_def)
  have call: "call_generator (length h) (h @ [state]) =
       Some (real (lcg_next state) / 2 ^ 32, h @ [lcg_next state])"
    by (simp add: call_generator_def random_call_def Let_def)
  have step: "lcg_next state = (state * 1664525 + 1013904223) mod 2 ^ 32"
    by (simp add: lcg_next_def)
  from fold hash_step_signed init call step random_call_range [of state]
  show ?thesis by blast
qed

theorem createSeededRandom_algorithm_witness:
  "seed_hash ''ab'' = 3105
   \<and> createSeededRandom ''ab'' [] = (0, [3105])
   \<and> call_generator 0 [3105] = Some (1887287052 / 4294967296, [1887287052])"
  using createSeededRandom_algorithm [of "''ab''" "[]" 3105]
  by (simp add: lcg_next_def)

text \<open>The formula of the specification gives another hash, already on the seed "ab".\<close>

theorem spec_hash_formula_differs:
  "seed_hash ''ab'' = 3105 \<and> spec_seed_hash ''ab'' = 3008
   \<and> initial_state (seed_hash ''ab'') \<noteq> initial_state (spec_seed_hash ''ab'')"
  by (simp add: seed_hash_def spec_seed_hash_def hash_step_def spec_hash_step_def initial_state_def)

text \<open>
  Claim C1. In any program that creates and calls generators in any order, two
  generators created with the same seed return the same numbers, call for call (each
  sequence is compared up to the shorter length). Two calls of \<open>seededShuffle\<close> with the
  same seed on arrays holding the same elements, in whatever store, return arrays
  holding the same elements in the same order; in particular a second call on the same
  array after the first returns a new array equal to the first result.
\<close>

theorem seeded_sources_deterministic:
  "(Created g1 seed \<in> set (run_ops ops h) \<and> Created g2 seed \<in> set (run_ops ops h) \<longrightarrow>
      take (min (length (values_of g1 (run_ops ops h))) (length (values_of g2 (run_ops ops h))))
        (values_of g1 (run_ops ops h)) =
      take (min (length (values_of g1 (run_ops ops h))) (length (values_of g2 (run_ops ops h))))
        (values_of g2 (run_ops ops h)))
   \<and> (a1 < length sta \<and> a2 < length stb \<and> sta ! a1 = stb ! a2 \<longrightarrow>
        snd (seededShuffle_store sta a1 (d @ namespace)) ! fst (seededShuffle_store sta a1 (d @ namespace)) =
        snd (seededShuffle_store stb a2 (d @ namespace)) ! fst (seededShuffle_store stb a2 (d @ namespace)))
   \<and> (a < length st \<longrightarrow>
        (case seededShuffle_store st a (d @ namespace) of
           (r1, st1) \<Rightarrow>
             (case seededShuffle_store st1 a (d @ namespace) of
                (r2, st2) \<Rightarrow> r1 \<noteq> r2 \<and> st2 ! r1 = st2 ! r2)))"
proof (intro conjI impI)
  assume "Created g1 seed \<in> set (run_ops ops h) \<and> Created g2 seed \<in> set (run_ops ops h)"
  then show "take (min (length (values_of g1 (run_ops ops h))) (length (values_of g2 (run_ops ops h))))
        (values_of g1 (run_ops ops h)) =
      take (min (length (values_of g1 (run_ops ops h))) (length (values_of g2 (run_ops ops h))))
        (values_of g2 (run_ops ops h))"
    using same_seed_same_values by blast
next
  assume "a1 < length sta \<and> a2 < length stb \<and> sta ! a1 = stb ! a2"
  then show "snd (seededShuffle_store sta a1 (d @ namespace)) ! fst (seededShuffle_store sta a1 (d @ namespace)) =
        snd (seededShuffle_store stb a2 (d @ namespace)) ! fst (seededShuffle_store stb a2 (d @ namespace))"
    by (simp add: seededShuffle_store_eq)
next
  assume "a < length st"
  then show "case seededShuffle_store st a (d @ namespace) of
           (r1, st1) \<Rightarrow>
             (case seededShuffle_store st1 a (d @ namespace) of
                (r2, st2) \<Rightarrow> r1 \<noteq> r2 \<and> st2 ! r1 = st2 ! r2)"
    by (simp add: seededShuffle_store_eq nth_append)
qed

theorem seeded_sources_deterministic_witness:
  "Created 0 ''a.com'' \<in> set (run_ops [Create ''a.com'', Call 0, Create ''a.com'', Call 1, Call 0, Call 1] [])
   \<and> Created 1 ''a.com'' \<in> set (run_ops [Create ''a.com'', Call 0, Create ''a.com'', Call 1, Call 0, Call 1] [])
   \<and> values_of 0 (run_ops [Create ''a.com'', Call 0, Create ''a.com'', Call 1, Call 0, Call 1] []) =
      values_of 1 (run_ops [Create ''a.com'', Call 0, Create ''a.com'', Call 1, Call 0, Call 1] [])
   \<and> length (values_of 0 (run_ops [Create ''a.com'', Call 0, Create ''a.com'', Call 1, Call 0, Call 1] [])) = 2
   \<and> seededShuffle_store [[10, 20, 30 :: nat]] 0 (''a'' @ ''.com'') = (1, [[10, 20, 30], [30, 20, 10]])
   \<and> seededShuffle_store [[10, 20, 30 :: nat], [30, 20, 10]] 0 (''a'' @ ''.com'') =
        (2, [[10, 20, 30], [30, 20, 10], [30, 20, 10]])"
  using seeded_sources_deterministic
    [of 0 "''a.com''" "[Create ''a.com'', Call 0, Create ''a.com'', Call 1, Call 0, Call 1]" "[]" 1
        0 "[[10, 20, 30 :: nat]]" 0 "[[10, 20, 30 :: nat], [30, 20, 10]]" "''a''" "''.com''" 0 "[[10, 20, 30 :: nat]]"]
  by (simp add: createSeededRandom_def call_generator_def random_call_def Let_def
      seededShuffle_store_eq seededShuffle_example)

text \<open>
  Claim C8. \<open>seededShuffle\<close> leaves every array of the store as it was, its argument
  included, and returns a new array of the same length holding the same elements with
  the same multiplicities.
\<close>

theorem seededShuffle_pure_permutation:
  assumes "array < length st"
    and "seededShuffle_store st array seed = (shuffled, st1)"
  shows "(\<forall>b < length st. st1 ! b = st ! b)
     \<and> shuffled = length st \<and> length st1 = length st + 1
     \<and> length (st1 ! shuffled) = length (st ! array)
     \<and> mset (st1 ! shuffled) = mset (st ! array)"
  using assms
  by (auto simp: seededShuffle_store_eq nth_append seededShuffle_length seededShuffle_mset)

theorem seededShuffle_pure_permutation_witness:
  "(0::nat) < length [[10, 20, 30 :: nat]]
   \<and> seededShuffle_store [[10, 20, 30 :: nat]] 0 ''a.com'' = (1, [[10, 20, 30], [30, 20, 10]])
   \<and> [[10, 20, 30], [30, 20, 10]] ! 0 = [[10, 20, 30 :: nat]] ! 0
   \<and> mset ([[10, 20, 30], [30, 20, 10]] ! 1) = mset ([[10, 20, 30 :: nat]] ! 0)"
proof -
  have run: "seededShuffle_store [[10, 20, 30 :: nat]] 0 ''a.com'' = (1, [[10, 20, 30], [30, 20, 10]])"
    by (simp add: seededShuffle_store_eq seededShuffle_example)
  have "(0::nat) < length [[10, 20, 30 :: nat]]" by simp
  from seededShuffle_pure_permutation [OF this run] run show ?thesis by simp
qed

text \<open>
  Claim C9. When the list holds the empty string, the result of \<open>shuffleStaticPages\<close>
  starts with it and continues with a permutation of the non-empty entries; otherwise
  the result is a permutation of the list. A list holding the empty string more than
  once gives a strictly shorter result; a list holding it at most once, so every list
  without duplicates, gives a result of the same length.
\<close>

theorem shuffleStaticPages_homepage_first:
  "('''' \<in> set pages \<longrightarrow>
      (\<exists>others. shuffleStaticPages d pages = '''' # others
         \<and> mset others = mset (filter (\<lambda>p. p \<noteq> '''') pages)))
   \<and> ('''' \<notin> set pages \<longrightarrow> mset (shuffleStaticPages d pages) = mset pages)
   \<and> (1 < count_list pages '''' \<longrightarrow> length (shuffleStaticPages d pages) < length pages)
   \<and> (count_list pages '''' \<le> 1 \<longrightarrow> length (shuffleStaticPages d pages) = length pages)
   \<and> (distinct pages \<longrightarrow> length (shuffleStaticPages d pages) = length pages)"
proof -
  let ?others = "filter (\<lambda>p. p \<noteq> '''') pages"
  have found: "find (\<lambda>p. p = '''') pages \<noteq> None \<longleftrightarrow> '''' \<in> set pages"
    by (auto simp: find_None_iff)
  have with_home: "'''' \<in> set pages \<Longrightarrow>
      shuffleStaticPages d pages = '''' # seededShuffle ?others (d @ ''-pages'')"
    using found by (simp add: shuffleStaticPages_def Let_def)
  have without_home: "'''' \<notin> set pages \<Longrightarrow>
      shuffleStaticPages d pages = seededShuffle ?others (d @ ''-pages'')"
    using found by (simp add: shuffleStaticPages_def Let_def)
  have same: "'''' \<notin> set pages \<Longrightarrow> ?others = pages"
    by (induction pages) auto
  have count: "length ?others + count_list pages '''' = length pages"
    by (rule count_filter_neq)
  have pos: "'''' \<in> set pages \<longleftrightarrow> 0 < count_list pages ''''"
    using count_list_0_iff [of pages "''''"] by auto
  have c1: "'''' \<in> set pages \<longrightarrow>
      (\<exists>others. shuffleStaticPages d pages = '''' # others \<and> mset others = mset ?others)"
    using with_home seededShuffle_mset by blast
  have c2: "'''' \<notin> set pages \<longrightarrow> mset (shuffleStaticPages d pages) = mset pages"
    using without_home same by (simp add: seededShuffle_mset)
  have c3: "1 < count_list pages '''' \<longrightarrow> length (shuffleStaticPages d pages) < length pages"
  proof
    assume many: "1 < count_list pages ''''"
    then have "'''' \<in> set pages" using pos by simp
    then have "length (shuffleStaticPages d pages) = Suc (length ?others)"
      using with_home by (simp add: seededShuffle_length)
    with many count show "length (shuffleStaticPages d pages) < length pages" by linarith
  qed
  have c4: "count_list pages '''' \<le> 1 \<longrightarrow> length (shuffleStaticPages d pages) = length pages"
  proof
    assume few: "count_list pages '''' \<le> 1"
    show "length (shuffleStaticPages d pages) = length pages"
    proof (cases "'''' \<in> set pages")
      case True
      then have one: "count_list pages '''' = 1" using few pos by simp
      from True have "length (shuffleStaticPages d pages) = Suc (length ?others)"
        using with_home by (simp add: seededShuffle_length)
      with one count show ?thesis by linarith
    next
      case False
      then show ?thesis using without_home same by (simp add: seededShuffle_length)
    qed
  qed
  have "distinct pages \<Longrightarrow> count_list pages '''' \<le> 1"
    by (induction pages) (auto simp: count_list_0_iff)
  with c4 have c5: "distinct pages \<longrightarrow> length (shuffleStaticPages d pages) = length pages"
    by blast
  from c1 c2 c3 c4 c5 show ?thesis by blast
qed

theorem shuffleStaticPages_homepage_first_witness:
  "'''' \<in> set ['''', ''faq'', '''', ''apply'']
   \<and> 1 < count_list ['''', ''faq'', '''', ''apply''] ''''
   \<and> hd (shuffleStaticPages ''a.com'' ['''', ''faq'', '''', ''apply'']) = ''''
   \<and> length (shuffleStaticPages ''a.com'' ['''', ''faq'', '''', ''apply'']) < 4
   \<and> distinct [''faq'', '''', ''apply'']
   \<and> length (shuffleStaticPages ''a.com'' [''faq'', '''', ''apply'']) = 3
   \<and> '''' \<notin> set [''faq'', ''apply'']
   \<and> mset (shuffleStaticPages ''a.com'' [''faq'', ''apply'']) = mset [''faq'', ''apply'']"
  using shuffleStaticPages_homepage_first [of "['''', ''faq'', '''', ''apply'']" "''a.com''"]
    shuffleStaticPages_homepage_first [of "[''faq'', '''', ''apply'']" "''a.com''"]
    shuffleStaticPages_homepage_first [of "[''faq'', ''apply'']" "''a.com''"]
  by auto

section \<open>Claims about the page filter and the retry policy\<close>

lemma catalogue_names_covered:
  "\<forall>p \<in> set PAGE_DEFINITIONS. name p \<in> set STATIC_PAGE_NAMES \<or> name p \<in> set PROGRAM_PAGE_NAMES"
  by (simp add: PAGE_DEFINITIONS_def STATIC_PAGE_NAMES_def PROGRAM_PAGE_NAMES_def)

text \<open>
  Claim C10. The list returned by \<open>filterPageDefinitions\<close> is the same for two option
  records that agree on \<open>staticPages\<close> and \<open>programPages\<close>, whatever their \<open>homepage\<close>,
  \<open>cityStatePages\<close> and \<open>forceRegenerate\<close> fields are: every page of the catalogue is
  named in the static or in the program list, so a page is kept exactly when the flag
  of its list is set. Without options the whole catalogue is returned.
\<close>

theorem filterPageDefinitions_reads_two_flags:
  "(staticPages o1 = staticPages o2 \<and> programPages o1 = programPages o2 \<longrightarrow>
      filterPageDefinitions (Some o1) = filterPageDefinitions (Some o2))
   \<and> filterPageDefinitions None = PAGE_DEFINITIONS
   \<and> (\<forall>p \<in> set PAGE_DEFINITIONS.
        name p \<in> set STATIC_PAGE_NAMES \<or> name p \<in> set PROGRAM_PAGE_NAMES)
   \<and> filterPageDefinitions (Some o1) =
       filter (\<lambda>p. if name p \<in> set STATIC_PAGE_NAMES then staticPages o1 else programPages o1)
         PAGE_DEFINITIONS"
proof -
  have a: "staticPages o1 = staticPages o2 \<and> programPages o1 = programPages o2 \<longrightarrow>
      filterPageDefinitions (Some o1) = filterPageDefinitions (Some o2)"
    by (simp add: filterPageDefinitions_def)
  have b: "filterPageDefinitions None = PAGE_DEFINITIONS"
    by (simp add: filterPageDefinitions_def)
  have c: "filterPageDefinitions (Some o1) =
       filter (\<lambda>p. if name p \<in> set STATIC_PAGE_NAMES then staticPages o1 else programPages o1)
         PAGE_DEFINITIONS"
    unfolding filterPageDefinitions_def option.case
    by (rule filter_cong [OF refl]) (use catalogue_names_covered in auto)
  from a b c catalogue_names_covered show ?thesis by blast
qed

theorem filterPageDefinitions_reads_two_flags_witness:
  "filterPageDefinitions (Some \<lparr>homepage = True, staticPages = True, programPages = False,
        cityStatePages = True, forceRegenerate = Some True\<rparr>) =
   filterPageDefinitions (Some \<lparr>homepage = False, staticPages = True, programPages = False,
        cityStatePages = False, forceRegenerate = None\<rparr>)
   \<and> map name (filterPageDefinitions (Some \<lparr>homepage = True, staticPages = True,
        programPages = False, cityStatePages = True, forceRegenerate = Some True\<rparr>)) =
      [''faq'', ''programs'', ''providers'', ''eligibility'', ''contact'', ''apply'',
       ''states-index'', ''404'']"
proof -
  let ?o1 = "\<lparr>homepage = True, staticPages = True, programPages = False,
        cityStatePages = True, forceRegenerate = Some True\<rparr>"
  let ?o2 = "\<lparr>homepage = False, staticPages = True, programPages = False,
        cityStatePages = False, forceRegenerate = None\<rparr>"
  have "staticPages ?o1 = staticPages ?o2 \<and> programPages ?o1 = programPages ?o2" by simp
  with filterPageDefinitions_reads_two_flags [of ?o1 ?o2]
  have eq: "filterPageDefinitions (Some ?o1) = filterPageDefinitions (Some ?o2)"
    and form: "filterPageDefinitions (Some ?o1) =
       filter (\<lambda>p. if name p \<in> set STATIC_PAGE_NAMES then staticPages ?o1 else programPages ?o1)
         PAGE_DEFINITIONS"
    by blast+
  have "map name (filterPageDefinitions (Some ?o1)) =
      [''faq'', ''programs'', ''providers'', ''eligibility'', ''contact'', ''apply'',
       ''states-index'', ''404'']"
    unfolding form by (simp add: PAGE_DEFINITIONS_def STATIC_PAGE_NAMES_def)
  with eq show ?thesis by blast
qed

lemma messages_create_hit_counter:
  "messages_create pn w = Some (r, w1) \<Longrightarrow>
     consecutiveRateLimitHits w1 = consecutiveRateLimitHits w"
  by (auto simp: messages_create_def Let_def split: response.splits reply.splits)

lemma withRetry_loop_hit_counter:
  assumes fn: "\<And>w r w1. fn w = Some (r, w1) \<Longrightarrow>
     consecutiveRateLimitHits w1 = consecutiveRateLimitHits w"
  shows "withRetry_loop fn pn m a le w = Some (r, w1) \<Longrightarrow>
     consecutiveRateLimitHits w1 = consecutiveRateLimitHits w"
  using fn
proof (induction fn pn m a le w arbitrary: r w1 rule: withRetry_loop.induct)
  case (1 fn pageName maxRetries attempt lastError w)
  note run = "1.prems"(1) and fn = "1.prems"(2)
  show ?case
  proof (cases "attempt \<le> maxRetries")
    case False
    with run show ?thesis by (simp add: withRetry_loop.simps [of fn pageName maxRetries attempt])
  next
    case True
    show ?thesis
    proof (cases "fn w")
      case None
      with True run show ?thesis
        by (simp add: withRetry_loop.simps [of fn pageName maxRetries attempt])
    next
      case (Some x)
      obtain res w2 where x: "x = (res, w2)" by (cases x)
      from fn [of w res w2] Some x
      have f2: "consecutiveRateLimitHits w2 = consecutiveRateLimitHits w" by simp
      show ?thesis
      proof (cases res)
        case (Inr v)
        with True Some x run f2 show ?thesis
          by (auto simp: withRetry_loop.simps [of fn pageName maxRetries attempt])
      next
        case (Inl error)
        show ?thesis
        proof (cases "isRateLimitError error \<and> attempt < maxRetries")
          case False
          with True Some x Inl run f2 show ?thesis
            by (auto simp: withRetry_loop.simps [of fn pageName maxRetries attempt])
        next
          case retry: True
          let ?w3 = "sleep (INITIAL_RETRY_DELAY_MS * 2 ^ attempt) (w2\<lparr>lastRateLimitHit := now w2\<rparr>)"
          from True Some x Inl retry run
          have rec: "withRetry_loop fn pageName maxRetries (attempt + 1) (Some error) ?w3 = Some (r, w1)"
            by (simp add: withRetry_loop.simps [of fn pageName maxRetries attempt] Let_def)
          have "consecutiveRateLimitHits w1 = consecutiveRateLimitHits ?w3"
            by (rule "1.IH" [OF True Some x [symmetric] Inl retry refl refl refl rec])
              (rule fn, assumption)
          with f2 show ?thesis by (simp add: sleep_def)
        qed
      qed
    qed
  qed
qed

text \<open>No call of \<open>withRetry\<close> around a provider request changes the counter of
  consecutive rate-limit hits, whatever the provider answers.\<close>

lemma withRetry_hit_counter:
  assumes "withRetry (messages_create pn) pn' m w = Some (r, w1)"
  shows "consecutiveRateLimitHits w1 = consecutiveRateLimitHits w"
  using assms unfolding withRetry_def
  by (rule withRetry_loop_hit_counter [rotated]) (rule messages_create_hit_counter)

text \<open>The delays between consecutive retryable failures: after failed attempt \<open>a\<close>
  the code sleeps \<open>INITIAL_RETRY_DELAY_MS * 2^a\<close>, without a ceiling.\<close>

lemma withRetry_loop_retry_step:
  assumes "fn w = Some (Inl error, w1)" and "isRateLimitError error" and "a < m"
  shows "withRetry_loop fn pn m a le w =
     withRetry_loop fn pn m (a + 1) (Some error)
       (sleep (INITIAL_RETRY_DELAY_MS * 2 ^ a) (w1\<lparr>lastRateLimitHit := now w1\<rparr>))"
  using assms by (simp add: withRetry_loop.simps [of fn pn m a] Let_def)

text \<open>
  Claim C3, on the code. With a provider that answers every request with status 429,
  \<open>withRetry\<close> (initial delay 5000, 8 retries) sleeps 5000, 10000, 20000, 40000 and
  then 80000, 160000, 320000 and 640000 milliseconds: the delay after attempt \<open>n\<close> is
  \<open>5000 * 2^n\<close>, and from the fifth on it is above \<open>MAX_RETRY_DELAY_MS\<close>, which the
  code declares and never applies.
\<close>

theorem withRetry_delays_exceed_ceiling:
  "map_option (sleeps \<circ> snd)
     (withRetry (messages_create ''faq'') ''faq'' MAX_RETRIES (fresh_world always_throttled)) =
     Some [5000, 10000, 20000, 40000, 80000, 160000, 320000, 640000]
   \<and> MAX_RETRY_DELAY_MS = 60000"
  by (simp add: withRetry_def withRetry_loop.simps messages_create_def fresh_world_def
      always_throttled_def rate_limit_error_def isRateLimitError_def sleep_def
      MAX_RETRIES_def INITIAL_RETRY_DELAY_MS_def MAX_RETRY_DELAY_MS_def Let_def)

text \<open>
  Claim C4, on the code. With a provider that answers the first request with status
  429 and the second with a message, \<open>withRetry\<close> sends two requests and sleeps 5000
  milliseconds in between; it sets \<open>lastRateLimitHit\<close> to the time of the error, and
  \<open>consecutiveRateLimitHits\<close> is still 0 afterwards.
\<close>

theorem withRetry_leaves_hit_counter:
  "map_option (apiCalls \<circ> snd)
     (withRetry (messages_create ''faq'') ''faq'' MAX_RETRIES (fresh_world throttled_once)) =
     Some [''faq'', ''faq'']
   \<and> map_option (sleeps \<circ> snd)
     (withRetry (messages_create ''faq'') ''faq'' MAX_RETRIES (fresh_world throttled_once)) =
     Some [5000]
   \<and> map_option (lastRateLimitHit \<circ> snd)
     (withRetry (messages_create ''faq'') ''faq'' MAX_RETRIES (fresh_world throttled_once)) =
     Some 1700000000200
   \<and> map_option (consecutiveRateLimitHits \<circ> snd)
     (withRetry (messages_create ''faq'') ''faq'' MAX_RETRIES (fresh_world throttled_once)) =
     Some 0"
  by (simp add: withRetry_def withRetry_loop.simps messages_create_def fresh_world_def
      throttled_once_def rate_limit_error_def isRateLimitError_def sleep_def
      MAX_RETRIES_def INITIAL_RETRY_DELAY_MS_def Let_def)

text \<open>
  Claim C5, on the code. \<open>generatePageWithClaude\<close> hands the provider call to
  \<open>withRetry\<close> without \<open>withTimeout\<close>: with a provider that never answers, the call for
  the first page never settles and neither does the run, while the same call under
  \<open>withTimeout\<close> is rejected by the timer.
\<close>

theorem provider_call_has_no_timeout:
  "generatePageWithClaude keep_text (hd PAGE_DEFINITIONS) example_config
     (fresh_world never_answers) = None
   \<and> generateAllPageContent keep_text ''site'' example_config None (fresh_world never_answers) = None
   \<and> map_option fst
       (withTimeout (messages_create ''state-programs'') 120000 ''state-programs''
          (fresh_world never_answers)) =
     Some (Inl (new_Error ''Timeout after 120000ms generating state-programs''))"
proof -
  have a: "generatePageWithClaude keep_text (hd PAGE_DEFINITIONS) example_config
     (fresh_world never_answers) = None"
    by (simp add: generatePageWithClaude_def withRetry_def withRetry_loop.simps
        messages_create_def fresh_world_def never_answers_def)
  have b: "generateAllPageContent keep_text ''site'' example_config None
     (fresh_world never_answers) = None"
    by (simp add: generateAllPageContent_def filterPageDefinitions_def PAGE_DEFINITIONS_def
      split_batches.simps PARALLEL_WORKERS_def run_batch_def page_task_def mustRegenerate_def
      PROGRAM_PAGE_NAMES_def shouldForceRegenerate_def generatePageWithClaude_def
      withRetry_def withRetry_loop.simps messages_create_def fresh_world_def never_answers_def
      MAX_RETRIES_def Let_def)
  have c: "map_option fst
       (withTimeout (messages_create ''state-programs'') 120000 ''state-programs''
          (fresh_world never_answers)) =
     Some (Inl (new_Error ''Timeout after 120000ms generating state-programs''))"
    by (simp add: withTimeout_def messages_create_def fresh_world_def never_answers_def
        show_nat.simps digit_char_def Let_def)
  from a b c show ?thesis by blast
qed

section \<open>What the steps of a run leave alone\<close>


















text \<open>The two ways a page task ends.\<close>

lemma page_task_skip:
  assumes "\<not> mustRegenerate p" and "\<not> shouldForceRegenerate opts"
    and "existing_output_valid (path_join sp (outputPath p)) w"
  shows "page_task tidy sp cfg opts n p w = Some (Fulfilled, record_skipped (name p) n w)"
  using assms by (simp add: page_task_def)





lemma run_tasks_length:
  "run_tasks tidy sp cfg opts n batch w = Some (rs, w1) \<Longrightarrow> length rs = length batch"
  by (induction batch arbitrary: w rs) (auto split: option.splits)






























section \<open>What regenerating a page does\<close>

lemma messages_create_cases:
  "messages_create pn w =
     (case provider w (length (apiCalls w)) of
        NoReply \<Rightarrow> None
      | Reply ms r \<Rightarrow>
          Some (case r of Failure e \<Rightarrow> Inl e | Message b \<Rightarrow> Inr b,
                w\<lparr>now := now w + ms, apiCalls := apiCalls w @ [pn]\<rparr>))"
  by (simp add: messages_create_def Let_def split: response.splits reply.splits)

lemma withRetry_loop_requests:
  "fn = messages_create pn \<Longrightarrow> a \<le> m \<Longrightarrow>
     retry_result a m pn w (withRetry_loop fn pn' m a le w)"
proof (induction fn pn' m a le w rule: withRetry_loop.induct)
  case (1 fn pageName maxRetries attempt lastError w)
  note fn = "1.prems"(1) and le = "1.prems"(2)
  let ?n = "length (apiCalls w)"
  show ?case
  proof (cases "provider w ?n")
    case NoReply
    then have "fn w = None" by (simp add: fn messages_create_cases)
    with le have "withRetry_loop fn pageName maxRetries attempt lastError w = None"
      by (simp add: withRetry_loop.simps [of fn pageName maxRetries attempt])
    moreover have "attempt + 0 \<le> maxRetries \<and> provider w (?n + 0) = NoReply"
      using le NoReply by simp
    ultimately show ?thesis unfolding retry_result_def by (simp only: option.case) blast
  next
    case (Reply ms r)
    let ?w2 = "w\<lparr>now := now w + ms, apiCalls := apiCalls w @ [pn]\<rparr>"
    show ?thesis
    proof (cases r)
      case (Message v)
      with Reply have "fn w = Some (Inr v, ?w2)" by (simp add: fn messages_create_cases)
      with le have res: "withRetry_loop fn pageName maxRetries attempt lastError w = Some (Inr v, ?w2)"
        by (simp add: withRetry_loop.simps [of fn pageName maxRetries attempt])
      show ?thesis unfolding retry_result_def res
        using le Reply Message by (auto intro!: exI [of _ 0])
    next
      case (Failure e)
      with Reply have fw: "fn w = Some (Inl e, ?w2)" by (simp add: fn messages_create_cases)
      show ?thesis
      proof (cases "isRateLimitError e \<and> attempt < maxRetries")
        case False
        with fw le have res: "withRetry_loop fn pageName maxRetries attempt lastError w = Some (Inl e, ?w2)"
          by (auto simp: withRetry_loop.simps [of fn pageName maxRetries attempt])
        show ?thesis unfolding retry_result_def res
          using le Reply Failure by (auto intro!: exI [of _ 0])
      next
        case True
        let ?w3 = "sleep (INITIAL_RETRY_DELAY_MS * 2 ^ attempt) (?w2\<lparr>lastRateLimitHit := now ?w2\<rparr>)"
        from True fw le
        have res: "withRetry_loop fn pageName maxRetries attempt lastError w =
            withRetry_loop fn pageName maxRetries (attempt + 1) (Some e) ?w3"
          by (simp add: withRetry_loop.simps [of fn pageName maxRetries attempt] Let_def)
        from True have le': "attempt + 1 \<le> maxRetries" by simp
        have ih: "retry_result (attempt + 1) maxRetries pn ?w3
            (withRetry_loop fn pageName maxRetries (attempt + 1) (Some e) ?w3)"
          by (rule "1.IH" [OF le fw refl refl True refl refl refl fn le'])
        show ?thesis
        proof (cases "withRetry_loop fn pageName maxRetries (attempt + 1) (Some e) ?w3")
          case None
          from ih have "\<exists>k. attempt + 1 + k \<le> maxRetries \<and>
              provider w (length (apiCalls w) + Suc k) = NoReply"
            unfolding retry_result_def None by (simp add: sleep_def)
          then obtain k where "attempt + 1 + k \<le> maxRetries"
            "provider w (length (apiCalls w) + Suc k) = NoReply"
            by blast
          then have "attempt + Suc k \<le> maxRetries \<and> provider w (?n + Suc k) = NoReply" by simp
          then show ?thesis unfolding retry_result_def res None by (simp only: option.case) blast
        next
          case (Some x)
          obtain r1 w1 where x: "x = (r1, w1)" by (cases x)
          from ih have "\<exists>k ms1. attempt + 1 + k \<le> maxRetries \<and>
              apiCalls w1 = apiCalls w @ pn # replicate (Suc k) pn \<and>
              provider w1 = provider w \<and> files w1 = files w \<and> progress w1 = progress w \<and>
              completedCount w1 = completedCount w \<and> skippedCount w1 = skippedCount w \<and>
              generatedCount w1 = generatedCount w \<and>
              provider w (length (apiCalls w) + Suc k) =
                Reply ms1 (case r1 of Inl e \<Rightarrow> Failure e | Inr v \<Rightarrow> Message v)"
            unfolding retry_result_def Some x by (simp add: sleep_def)
          then obtain k ms1 where k: "attempt + 1 + k \<le> maxRetries"
            "apiCalls w1 = apiCalls w @ pn # replicate (Suc k) pn"
            "provider w1 = provider w" "files w1 = files w" "progress w1 = progress w"
            "completedCount w1 = completedCount w" "skippedCount w1 = skippedCount w"
            "generatedCount w1 = generatedCount w"
            "provider w (length (apiCalls w) + Suc k) =
               Reply ms1 (case r1 of Inl e \<Rightarrow> Failure e | Inr v \<Rightarrow> Message v)"
            by blast
          have "attempt + Suc k \<le> maxRetries" using k(1) by simp
          moreover have "apiCalls w1 = apiCalls w @ replicate (Suc (Suc k)) pn"
            using k(2) by simp
          ultimately show ?thesis unfolding retry_result_def res Some x
            using k(3-9) by (simp only: option.case prod.case) blast
        qed
      qed
    qed
  qed
qed

lemma generatePageWithClaude_unsettled:
  assumes "generatePageWithClaude tidy p cfg w = None"
  shows "\<exists>k. k \<le> MAX_RETRIES \<and> provider w (length (apiCalls w) + k) = NoReply"
proof -
  let ?loop = "withRetry_loop (messages_create (name p)) (name p) MAX_RETRIES 0 None w"
  from assms have "?loop = None"
    by (auto simp: generatePageWithClaude_def withRetry_def
        split: option.splits sum.splits list.splits content_block.splits)
  with withRetry_loop_requests [OF refl, of 0 MAX_RETRIES "name p" w "name p" None]
  show ?thesis by (simp add: retry_result_def)
qed

lemma generatePageWithClaude_settled:
  assumes "generatePageWithClaude tidy p cfg w = Some (r, w1)"
  shows "\<exists>k ms a. k \<le> MAX_RETRIES \<and> apiCalls w1 = apiCalls w @ replicate (Suc k) (name p) \<and>
     provider w1 = provider w \<and> files w1 = files w \<and> progress w1 = progress w \<and>
     completedCount w1 = completedCount w \<and> skippedCount w1 = skippedCount w \<and>
     generatedCount w1 = generatedCount w \<and>
     provider w (length (apiCalls w) + k) = Reply ms a \<and>
     (case r of
        Inr content \<Rightarrow> (\<exists>t rest. a = Message (Text t # rest) \<and> content = tidy p t)
      | Inl e \<Rightarrow> (\<forall>t rest. a \<noteq> Message (Text t # rest)))"
proof -
  let ?loop = "withRetry_loop (messages_create (name p)) (name p) MAX_RETRIES 0 None w"
  from assms obtain r0 where loop: "?loop = Some (r0, w1)"
    and r: "(\<exists>e. r0 = Inl e \<and> r = Inl e) \<or>
            (r0 = Inr [] \<and> (\<exists>e. r = Inl e)) \<or>
            (\<exists>ty rest. r0 = Inr (Other_block ty # rest) \<and> (\<exists>e. r = Inl e)) \<or>
            (\<exists>t rest. r0 = Inr (Text t # rest) \<and> r = Inr (tidy p t))"
    by (auto simp: generatePageWithClaude_def withRetry_def
        split: option.splits sum.splits list.splits content_block.splits)
  from withRetry_loop_requests [OF refl, of 0 MAX_RETRIES "name p" w "name p" None] loop
  obtain k ms where k: "k \<le> MAX_RETRIES" "apiCalls w1 = apiCalls w @ replicate (Suc k) (name p)"
    "provider w1 = provider w" "files w1 = files w" "progress w1 = progress w"
    "completedCount w1 = completedCount w" "skippedCount w1 = skippedCount w"
    "generatedCount w1 = generatedCount w"
    "provider w (length (apiCalls w) + k) =
       Reply ms (case r0 of Inl e \<Rightarrow> Failure e | Inr v \<Rightarrow> Message v)"
    by (auto simp: retry_result_def)
  let ?a = "case r0 of Inl e \<Rightarrow> Failure e | Inr v \<Rightarrow> Message v"
  have "case r of
        Inr content \<Rightarrow> (\<exists>t rest. ?a = Message (Text t # rest) \<and> content = tidy p t)
      | Inl e \<Rightarrow> (\<forall>t rest. ?a \<noteq> Message (Text t # rest))"
    using r by auto
  with k show ?thesis by blast
qed

text \<open>A task that does not skip takes the generation path.\<close>

lemma page_task_generation:
  assumes "mustRegenerate p \<or> shouldForceRegenerate opts \<or>
           \<not> existing_output_valid (path_join sp (outputPath p)) w"
  shows "generation_attempted tidy p (path_join sp (outputPath p)) n
           (mustRegenerate p \<or> shouldForceRegenerate opts) w
           (page_task tidy sp cfg opts n p w)"
proof -
  let ?fp = "path_join sp (outputPath p)"
  let ?del = "mustRegenerate p \<or> shouldForceRegenerate opts"
  let ?w0 = "if \<not> mustRegenerate p \<and> \<not> shouldForceRegenerate opts then w
             else w\<lparr>files := (files w)(?fp := None)\<rparr>"
  let ?before = "if ?del then (files w)(?fp := None) else files w"
  have w0: "provider ?w0 = provider w" "apiCalls ?w0 = apiCalls w" "progress ?w0 = progress w"
    "completedCount ?w0 = completedCount w" "skippedCount ?w0 = skippedCount w"
    "generatedCount ?w0 = generatedCount w" "files ?w0 = ?before"
    by auto
  show ?thesis
  proof (cases "generatePageWithClaude tidy p cfg ?w0")
    case None
    with assms have res: "page_task tidy sp cfg opts n p w = None"
      by (simp add: page_task_def Let_def)
    from generatePageWithClaude_unsettled [OF None] w0(1,2)
    obtain k where "k \<le> MAX_RETRIES" "provider w (length (apiCalls w) + k) = NoReply"
      by auto
    then have "k \<in> set [0..<MAX_RETRIES + 1] \<and> provider w (length (apiCalls w) + k) = NoReply"
      by auto
    then have "\<exists>k \<in> set [0..<MAX_RETRIES + 1]. provider w (length (apiCalls w) + k) = NoReply"
      by (rule_tac x = k in bexI) simp_all
    then show ?thesis unfolding res generation_attempted_def by (simp add: list_ex_iff)
  next
    case (Some x)
    obtain r w2 where x: "x = (r, w2)" by (cases x)
    from generatePageWithClaude_settled [of tidy p cfg ?w0 r w2] Some x
    obtain k ms a where k: "k \<le> MAX_RETRIES"
      "apiCalls w2 = apiCalls ?w0 @ replicate (Suc k) (name p)"
      "provider w2 = provider ?w0" "files w2 = files ?w0" "progress w2 = progress ?w0"
      "completedCount w2 = completedCount ?w0" "skippedCount w2 = skippedCount ?w0"
      "generatedCount w2 = generatedCount ?w0"
      "provider ?w0 (length (apiCalls ?w0) + k) = Reply ms a"
      "case r of
         Inr content \<Rightarrow> (\<exists>t rest. a = Message (Text t # rest) \<and> content = tidy p t)
       | Inl e \<Rightarrow> (\<forall>t rest. a \<noteq> Message (Text t # rest))"
      by blast
    have calls: "apiCalls w2 = apiCalls w @ replicate (Suc k) (name p)"
      using k(2) w0(2) by simp
    have f: "provider w2 = provider w" "files w2 = ?before" "progress w2 = progress w"
      "completedCount w2 = completedCount w" "skippedCount w2 = skippedCount w"
      "generatedCount w2 = generatedCount w"
      using k(3) w0(1) k(4) w0(7) k(5) w0(3) k(6) w0(4) k(7) w0(5) k(8) w0(6)
      by (simp_all only:)
    have last: "length (apiCalls w2) - 1 = length (apiCalls w) + k"
      and since: "calls_since w w2 = replicate (Suc k) (name p)"
      by (simp_all add: calls calls_since_def)
    have answer: "provider w (length (apiCalls w2) - 1) = Reply ms a"
      using k(9) unfolding w0(1,2) last by simp
    have bound: "requests_page p w w2"
      unfolding requests_page_def using k(1) f(1) by (auto simp add: since calls)
    show ?thesis
    proof (cases r)
      case (Inl e)
      with Some x assms obtain reason where
        res: "page_task tidy sp cfg opts n p w = Some (Rejected reason, w2)"
        by (simp add: page_task_def Let_def)
      from k(10) Inl have "\<forall>t rest. a \<noteq> Message (Text t # rest)" by simp
      then have "case Reply ms a of NoReply \<Rightarrow> False
           | Reply ms (Message (Text astroContent # rest)) \<Rightarrow> False
           | _ \<Rightarrow> True"
        by (auto split: reply.splits list.splits content_block.splits)
      then have "generation_failed p ?fp ?del w (Some (Rejected reason, w2))"
        unfolding generation_failed_def using f bound answer by simp
      then show ?thesis unfolding res generation_attempted_def by simp
    next
      case (Inr content)
      with Some x assms have
        res: "page_task tidy sp cfg opts n p w =
          Some (Fulfilled, write_generated ?fp content (name p) n w2)"
        by (auto simp add: page_task_def Let_def)
      from k(10) Inr obtain t rest where
        a: "a = Message (Text t # rest)" and content: "content = tidy p t"
        by auto
      let ?w1 = "write_generated ?fp content (name p) n w2"
      have w1: "provider ?w1 = provider w2" "apiCalls ?w1 = apiCalls w2"
        "files ?w1 = (files w)(?fp \<mapsto> tidy p t)"
        "progress ?w1 = progress w @ [(name p, completedCount w + 1, n, generated)]"
        "completedCount ?w1 = completedCount w + 1" "generatedCount ?w1 = generatedCount w + 1"
        "skippedCount ?w1 = skippedCount w"
        using f content by (simp_all add: write_generated_def onProgress_def)
      have "requests_page p w ?w1"
        using bound unfolding requests_page_def calls_since_def w1(1,2) .
      then have "regenerated tidy p ?fp n w (Some (Fulfilled, ?w1))"
        unfolding regenerated_def using w1(2-7) answer a by simp
      then show ?thesis unfolding res generation_attempted_def by simp
    qed
  qed
qed

text \<open>When the provider answers the first request with a text, the page is
  regenerated.\<close>

lemma generatePageWithClaude_answer:
  assumes "provider w (length (apiCalls w)) = Reply ms (Message (Text t # bs))"
  shows "generatePageWithClaude tidy p cfg w =
     Some (Inr (tidy p t), w\<lparr>now := now w + ms, apiCalls := apiCalls w @ [name p]\<rparr>)"
  using assms
  by (simp add: generatePageWithClaude_def withRetry_def withRetry_loop.simps
      messages_create_def Let_def)

lemma page_task_regenerated:
  assumes gate: "mustRegenerate p \<or> shouldForceRegenerate opts \<or>
           \<not> existing_output_valid (path_join sp (outputPath p)) w"
    and answer: "provider w (length (apiCalls w)) = Reply ms (Message (Text t # rest))"
  shows "regenerated tidy p (path_join sp (outputPath p)) n w (page_task tidy sp cfg opts n p w)"
proof -
  let ?fp = "path_join sp (outputPath p)"
  define w0 where "w0 = (if \<not> mustRegenerate p \<and> \<not> shouldForceRegenerate opts then w
             else w\<lparr>files := (files w)(?fp := None)\<rparr>)"
  have w0: "provider w0 = provider w" "apiCalls w0 = apiCalls w" "progress w0 = progress w"
    "completedCount w0 = completedCount w" "skippedCount w0 = skippedCount w"
    "generatedCount w0 = generatedCount w"
    "(files w0)(?fp \<mapsto> tidy p t) = (files w)(?fp \<mapsto> tidy p t)"
    by (auto simp add: w0_def)
  let ?w2 = "w0\<lparr>now := now w0 + ms, apiCalls := apiCalls w0 @ [name p]\<rparr>"
  let ?w1 = "write_generated ?fp (tidy p t) (name p) n ?w2"
  have "provider w0 (length (apiCalls w0)) = Reply ms (Message (Text t # rest))"
    using answer w0(1,2) by simp
  then have "generatePageWithClaude tidy p cfg w0 = Some (Inr (tidy p t), ?w2)"
    by (rule generatePageWithClaude_answer)
  with gate have res: "page_task tidy sp cfg opts n p w = Some (Fulfilled, ?w1)"
    unfolding w0_def by (auto simp add: page_task_def Let_def)
  have w1: "provider ?w1 = provider w" "apiCalls ?w1 = apiCalls w @ [name p]"
    "files ?w1 = (files w)(?fp \<mapsto> tidy p t)"
    "progress ?w1 = progress w @ [(name p, completedCount w + 1, n, generated)]"
    "completedCount ?w1 = completedCount w + 1" "generatedCount ?w1 = generatedCount w + 1"
    "skippedCount ?w1 = skippedCount w"
    using w0 by (simp_all add: write_generated_def onProgress_def)
  have "requests_page p w ?w1"
    unfolding requests_page_def calls_since_def w1(1,2) by simp
  then show ?thesis
    unfolding res regenerated_def using w1(2-7) answer by simp
qed
section \<open>Claims about the idempotency gate and repeated runs\<close>

lemma sample_page_checks:
  "length sample_page = 593"
  "includes_str sample_page ''---''"
  "includes_str sample_page ''<Layout''"
  "\<not> includes_str (toLowerCase sample_page) ''error''"
  "length (filter (\<lambda>line. length (trim line) > 0) (split_lines sample_page)) = 22"
  "utf8_size sample_page = 593"
  by code_simp+






text \<open>The size of a file in bytes is not the length of its text: a text of 500
  characters with one accented letter has 501 bytes. A line of no-break spaces is
  blank.\<close>

lemma utf8_size_accented:
  "length (replicate 499 CHR ''a'' @ [CHR 0xE9]) = 500"
  "utf8_size (replicate 499 CHR ''a'' @ [CHR 0xE9]) = 501"
  by (simp_all add: utf8_size_def sum_list_replicate)

lemma trim_no_break_space: "trim [CHR 0xA0, CHR 0x20, CHR 0xA0] = []"
  by (simp add: trim_def isSpace_def)

lemma existing_output_valid_iff:
  "existing_output_valid fp w \<longleftrightarrow>
     (\<exists>existing. files w fp = Some existing
        \<and> 500 < utf8_size existing
        \<and> 500 \<le> length existing
        \<and> includes_str existing ''---''
        \<and> (includes_str existing ''<html'' \<or> includes_str existing ''<!doctype'' \<or>
             includes_str existing ''<Layout'')
        \<and> \<not> (includes_str (toLowerCase existing) ''error'' \<and>
              includes_str (toLowerCase existing) ''failed'' \<and> length existing < 1000)
        \<and> 20 \<le> length (filter (\<lambda>line. 0 < length (trim line)) (split_lines existing)))"
  by (cases "files w fp")
    (auto simp: existing_output_valid_def validatePageContent_def Let_def)

text \<open>A task cannot both skip and take the generation path.\<close>

lemma generation_attempted_not_skipped:
  assumes "generation_attempted tidy p fp n deleted w res"
  shows "\<not> gate_skipped p n w res"
proof (cases res)
  case None
  then show ?thesis by (simp add: gate_skipped_def)
next
  case (Some x)
  obtain r w1 where x: "x = (r, w1)" by (cases x)
  from assms Some x have "requests_page p w w1"
    by (auto simp: generation_attempted_def regenerated_def generation_failed_def)
  then have "apiCalls w1 \<noteq> apiCalls w"
    by (auto simp: requests_page_def calls_since_def)
  then show ?thesis by (simp add: Some x gate_skipped_def)
qed

lemma page_task_outcome:
  "(\<not> mustRegenerate p \<and> \<not> shouldForceRegenerate opts \<and>
      existing_output_valid (path_join sp (outputPath p)) w \<longrightarrow>
      gate_skipped p n w (page_task tidy sp cfg opts n p w) \<and>
      \<not> generation_attempted tidy p (path_join sp (outputPath p)) n deleted w
          (page_task tidy sp cfg opts n p w))
   \<and> (\<not> (\<not> mustRegenerate p \<and> \<not> shouldForceRegenerate opts \<and>
      existing_output_valid (path_join sp (outputPath p)) w) \<longrightarrow>
      \<not> gate_skipped p n w (page_task tidy sp cfg opts n p w) \<and>
      generation_attempted tidy p (path_join sp (outputPath p)) n
          (mustRegenerate p \<or> shouldForceRegenerate opts) w
          (page_task tidy sp cfg opts n p w))"
proof (intro conjI impI)
  assume skip: "\<not> mustRegenerate p \<and> \<not> shouldForceRegenerate opts \<and>
      existing_output_valid (path_join sp (outputPath p)) w"
  then have res: "page_task tidy sp cfg opts n p w = Some (Fulfilled, record_skipped (name p) n w)"
    by (simp add: page_task_skip)
  show skipped: "gate_skipped p n w (page_task tidy sp cfg opts n p w)"
    unfolding res by (simp add: gate_skipped_def record_skipped_def onProgress_def)
  from generation_attempted_not_skipped [of tidy p "path_join sp (outputPath p)" n deleted w
      "page_task tidy sp cfg opts n p w"] skipped
  show "\<not> generation_attempted tidy p (path_join sp (outputPath p)) n deleted w
          (page_task tidy sp cfg opts n p w)"
    by blast
next
  assume gen: "\<not> (\<not> mustRegenerate p \<and> \<not> shouldForceRegenerate opts \<and>
      existing_output_valid (path_join sp (outputPath p)) w)"
  then have gate: "mustRegenerate p \<or> shouldForceRegenerate opts \<or>
      \<not> existing_output_valid (path_join sp (outputPath p)) w"
    by blast
  show att: "generation_attempted tidy p (path_join sp (outputPath p)) n
          (mustRegenerate p \<or> shouldForceRegenerate opts) w
          (page_task tidy sp cfg opts n p w)"
    by (rule page_task_generation [OF gate])
  then show "\<not> gate_skipped p n w (page_task tidy sp cfg opts n p w)"
    by (rule generation_attempted_not_skipped)
qed

text \<open>
  Claim C6. For a page outside the always-regenerate category, the page task skips
  generation (no request to the provider, no file touched, one \<open>skipped\<close> report,
  the page counted as completed and skipped) exactly when an output file exists at
  the target path, the validation heuristics pass and \<open>forceRegenerate\<close> is not set.
  The heuristics are: more than 500 bytes on disk and at least 500 characters of
  text, the frontmatter marker \<open>---\<close>, one of the markers \<open><html\<close>, \<open><!doctype\<close>,
  \<open><Layout\<close>, not both \<open>error\<close> and \<open>failed\<close> in a text under 1000 characters, and
  at least 20 non-blank lines.

  A task skips exactly when it does not take the generation path. With
  \<open>forceRegenerate\<close> set every page takes it, whatever its previous output: the old
  file is deleted, the provider is asked for the page between one and
  \<open>MAX_RETRIES + 1\<close> times, and the task ends regenerated or failed as the provider's
  last answer decides, or does not settle when the provider leaves a request
  unanswered. When the provider answers the first request with a text, the page is
  regenerated: the file holds the new text, \<open>generated\<close> is reported and the page is
  counted as generated.
\<close>

theorem idempotency_gate:
  "(\<not> mustRegenerate pageDef \<longrightarrow>
      (gate_skipped pageDef n w (page_task tidy sp cfg opts n pageDef w) \<longleftrightarrow>
         (\<exists>existing. files w (path_join sp (outputPath pageDef)) = Some existing
            \<and> 500 < utf8_size existing
            \<and> 500 \<le> length existing
            \<and> includes_str existing ''---''
            \<and> (includes_str existing ''<html'' \<or> includes_str existing ''<!doctype'' \<or>
                 includes_str existing ''<Layout'')
            \<and> \<not> (includes_str (toLowerCase existing) ''error'' \<and>
                  includes_str (toLowerCase existing) ''failed'' \<and> length existing < 1000)
            \<and> 20 \<le> length (filter (\<lambda>line. 0 < length (trim line)) (split_lines existing)))
         \<and> \<not> shouldForceRegenerate opts))
   \<and> (gate_skipped pageDef n w (page_task tidy sp cfg opts n pageDef w) \<longleftrightarrow>
        \<not> generation_attempted tidy pageDef (path_join sp (outputPath pageDef)) n
            (mustRegenerate pageDef \<or> shouldForceRegenerate opts) w
            (page_task tidy sp cfg opts n pageDef w))
   \<and> (shouldForceRegenerate opts \<longrightarrow>
        generation_attempted tidy pageDef (path_join sp (outputPath pageDef)) n True w
          (page_task tidy sp cfg opts n pageDef w) \<and>
        (\<forall>ms t rest.
           provider w (length (apiCalls w)) = Reply ms (Message (Text t # rest)) \<longrightarrow>
           regenerated tidy pageDef (path_join sp (outputPath pageDef)) n w
             (page_task tidy sp cfg opts n pageDef w)))"
proof (intro conjI impI allI)
  let ?fp = "path_join sp (outputPath pageDef)"
  let ?res = "page_task tidy sp cfg opts n pageDef w"
  let ?del = "mustRegenerate pageDef \<or> shouldForceRegenerate opts"
  note outcome = page_task_outcome [of pageDef opts sp w n tidy cfg ?del]
  show both: "gate_skipped pageDef n w ?res \<longleftrightarrow>
      \<not> generation_attempted tidy pageDef ?fp n ?del w ?res"
    using outcome by blast
  {
    assume "\<not> mustRegenerate pageDef"
    then show "gate_skipped pageDef n w ?res \<longleftrightarrow>
         (\<exists>existing. files w ?fp = Some existing
            \<and> 500 < utf8_size existing
            \<and> 500 \<le> length existing
            \<and> includes_str existing ''---''
            \<and> (includes_str existing ''<html'' \<or> includes_str existing ''<!doctype'' \<or>
                 includes_str existing ''<Layout'')
            \<and> \<not> (includes_str (toLowerCase existing) ''error'' \<and>
                  includes_str (toLowerCase existing) ''failed'' \<and> length existing < 1000)
            \<and> 20 \<le> length (filter (\<lambda>line. 0 < length (trim line)) (split_lines existing)))
         \<and> \<not> shouldForceRegenerate opts"
      using outcome existing_output_valid_iff [of ?fp w] by blast
  }
  {
    assume force: "shouldForceRegenerate opts"
    then show "generation_attempted tidy pageDef ?fp n True w ?res"
      using outcome by simp
    fix ms t rest
    assume "provider w (length (apiCalls w)) = Reply ms (Message (Text t # rest))"
    with force show "regenerated tidy pageDef ?fp n w ?res"
      by (simp add: page_task_regenerated)
  }
qed

theorem idempotency_gate_witness:
  "\<not> mustRegenerate eligibility_page
   \<and> gate_skipped eligibility_page 13 site_with_eligibility
       (page_task keep_text ''site'' example_config None 13 eligibility_page site_with_eligibility)
   \<and> shouldForceRegenerate (Some forced_options)
   \<and> generation_attempted keep_text eligibility_page ''site/src/pages/eligibility.astro'' 13 True
       site_with_eligibility
       (page_task keep_text ''site'' example_config (Some forced_options) 13 eligibility_page
          site_with_eligibility)
   \<and> regenerated keep_text eligibility_page ''site/src/pages/eligibility.astro'' 13
       site_with_eligibility
       (page_task keep_text ''site'' example_config (Some forced_options) 13 eligibility_page
          site_with_eligibility)"
proof -
  have page: "name eligibility_page = ''eligibility''"
    "outputPath eligibility_page = ''src/pages/eligibility.astro''"
    by (simp_all add: eligibility_page_def PAGE_DEFINITIONS_def)
  have path: "path_join ''site'' (outputPath eligibility_page) = ''site/src/pages/eligibility.astro''"
    by (simp add: page path_join_def)
  have must: "\<not> mustRegenerate eligibility_page"
    by (simp add: mustRegenerate_def page PROGRAM_PAGE_NAMES_def)
  have stored: "files site_with_eligibility ''site/src/pages/eligibility.astro'' =
      Some sample_page"
    by (simp add: site_with_eligibility_def)
  have checks: "500 < utf8_size sample_page
      \<and> 500 \<le> length sample_page
      \<and> includes_str sample_page ''---''
      \<and> (includes_str sample_page ''<html'' \<or> includes_str sample_page ''<!doctype'' \<or>
           includes_str sample_page ''<Layout'')
      \<and> \<not> (includes_str (toLowerCase sample_page) ''error'' \<and>
            includes_str (toLowerCase sample_page) ''failed'' \<and> length sample_page < 1000)
      \<and> 20 \<le> length (filter (\<lambda>line. 0 < length (trim line)) (split_lines sample_page))"
    by (simp add: sample_page_checks del: length_greater_0_conv)
  have unforced: "\<not> shouldForceRegenerate None" by (simp add: shouldForceRegenerate_def)
  have forced: "shouldForceRegenerate (Some forced_options)"
    by (simp add: shouldForceRegenerate_def forced_options_def)
  have answer: "provider site_with_eligibility (length (apiCalls site_with_eligibility)) =
      Reply 3000 (Message (Text sample_page # []))"
    by (simp add: site_with_eligibility_def fresh_world_def always_answers_def)
  from idempotency_gate [of eligibility_page 13 site_with_eligibility keep_text "''site''"
      example_config None] must stored checks unforced
  have "gate_skipped eligibility_page 13 site_with_eligibility
       (page_task keep_text ''site'' example_config None 13 eligibility_page site_with_eligibility)"
    unfolding path by blast
  moreover from idempotency_gate [of eligibility_page 13 site_with_eligibility keep_text "''site''"
      example_config "Some forced_options"] forced answer
  have "generation_attempted keep_text eligibility_page ''site/src/pages/eligibility.astro'' 13 True
       site_with_eligibility
       (page_task keep_text ''site'' example_config (Some forced_options) 13 eligibility_page
          site_with_eligibility)
     \<and> regenerated keep_text eligibility_page ''site/src/pages/eligibility.astro'' 13
       site_with_eligibility
       (page_task keep_text ''site'' example_config (Some forced_options) 13 eligibility_page
          site_with_eligibility)"
    unfolding path by blast
  ultimately show ?thesis using must forced by blast
qed





end
